(* ===== verification/Prelude.thy ===== *)
theory Prelude
  imports Main
begin

text \<open>
  Shared vocabulary of the development: the named collections of facts that the
  component theories fill, and generic lemmas on lists that the components use.
  Nothing here is specific to the game; the lemmas are about list updates (the
  model of the source's in-place array writes), counting by filter, and the
  running-maximum loops (\<open>forEach\<close> with \<open>if (x > best) best = x\<close>) that the
  source writes out by hand.
\<close>

named_theorems board_simps "evaluation of board reads and writes"

text \<open>Fishburn's condition on a fail-soft window (see the last subsection).\<close>

definition fishburn :: "'a :: linorder \<Rightarrow> 'a \<Rightarrow> 'a \<Rightarrow> 'a \<Rightarrow> bool" where
  "fishburn a b v ab \<longleftrightarrow>
     (ab \<le> a \<longrightarrow> v \<le> ab) \<and> (a < ab \<and> ab < b \<longrightarrow> ab = v) \<and> (b \<le> ab \<longrightarrow> ab \<le> v)"

subsection \<open>Counting after a list update\<close>

text \<open>
  \<open>length (filter P xs)\<close> counts the cells of a row that satisfy \<open>P\<close>; an update
  of one cell changes the count by at most one, in the direction the old and new
  values say.
\<close>

lemma length_filter_update:
  "i < length xs \<Longrightarrow>
   length (filter P (xs[i := x])) + (if P (xs ! i) then 1 else 0)
   = length (filter P xs) + (if P x then 1 else 0)"
proof (induction xs arbitrary: i)
  case Nil
  then show ?case by simp
next
  case (Cons y ys)
  then show ?case by (cases i) auto
qed

lemma sum_list_map_update:
  "i < length xs \<Longrightarrow>
   sum_list (map f (xs[i := x])) + f (xs ! i) = sum_list (map f xs) + (f x :: nat)"
proof (induction xs arbitrary: i)
  case Nil
  then show ?case by simp
next
  case (Cons y ys)
  then show ?case by (cases i) auto
qed

subsection \<open>Running maximum written as a loop\<close>

text \<open>
  The source computes a maximum by a loop that starts from a value \<open>a\<close> and replaces
  it by \<open>f x\<close> whenever \<open>f x\<close> is larger. As a left fold:
\<close>

lemma foldl_running_max_ge_init:
  "(a :: 'b :: linorder) \<le> foldl (\<lambda>m x. if m < f x then f x else m) a xs"
proof (induction xs arbitrary: a)
  case Nil
  then show ?case by simp
next
  case (Cons y ys)
  have "a \<le> (if a < f y then f y else a)" by auto
  also have "\<dots> \<le> foldl (\<lambda>m x. if m < f x then f x else m) (if a < f y then f y else a) ys"
    by (rule Cons.IH)
  finally show ?case by simp
qed

lemma foldl_running_max_ge:
  "x \<in> set xs \<Longrightarrow> (f x :: 'b :: linorder) \<le> foldl (\<lambda>m x. if m < f x then f x else m) a xs"
proof (induction xs arbitrary: a)
  case Nil
  then show ?case by simp
next
  case (Cons y ys)
  show ?case
  proof (cases "x = y")
    case True
    have "f x \<le> (if a < f y then f y else a)" using True by auto
    also have "\<dots> \<le> foldl (\<lambda>m x. if m < f x then f x else m) (if a < f y then f y else a) ys"
      by (rule foldl_running_max_ge_init)
    finally show ?thesis by simp
  next
    case False
    with Cons show ?thesis by simp
  qed
qed

lemma foldl_running_max_cases:
  "foldl (\<lambda>m x. if m < f x then f x else m) a xs = a
   \<or> (\<exists>x\<in>set xs. foldl (\<lambda>m x. if m < f x then f x else m) a xs = f x)"
proof (induction xs arbitrary: a)
  case Nil
  then show ?case by simp
next
  case (Cons y ys)
  then show ?case by (cases "a < f y") (fastforce+)
qed

text \<open>
  On a non-empty list with values at least the start value, the loop's result is
  attained by an element: the filter that keeps the elements of maximal value is then
  non-empty.
\<close>

lemma foldl_running_max_attained:
  assumes "xs \<noteq> []" and "\<And>x. x \<in> set xs \<Longrightarrow> (a :: 'b :: linorder) \<le> f x"
  shows "\<exists>x\<in>set xs. f x = foldl (\<lambda>m x. if m < f x then f x else m) a xs"
proof -
  let ?r = "foldl (\<lambda>m x. if m < f x then f x else m) a xs"
  from foldl_running_max_cases [of f a xs]
  show ?thesis
  proof
    assume r: "?r = a"
    from assms(1) obtain y where y: "y \<in> set xs" by (cases xs) auto
    have "f y \<le> ?r" by (rule foldl_running_max_ge [OF y])
    with r assms(2) [OF y] have "f y = ?r" by simp
    with y show ?thesis by blast
  next
    assume "\<exists>x\<in>set xs. ?r = f x"
    then show ?thesis by (metis)
  qed
qed

lemma filter_running_max_nonempty:
  assumes "xs \<noteq> []" and "\<And>x. x \<in> set xs \<Longrightarrow> (a :: 'b :: linorder) \<le> f x"
  shows "filter (\<lambda>x. f x = foldl (\<lambda>m x. if m < f x then f x else m) a xs) xs \<noteq> []"
  using foldl_running_max_attained [OF assms] by (simp add: filter_empty_conv)


subsection \<open>A concatenation in which one element contributes\<close>

lemma concat_map_single:
  "distinct xs \<Longrightarrow> x0 \<in> set xs \<Longrightarrow> (\<And>x. x \<in> set xs \<Longrightarrow> x \<noteq> x0 \<Longrightarrow> g x = []) \<Longrightarrow>
   concat (map g xs) = g x0"
proof (induction xs)
  case Nil
  then show ?case by simp
next
  case (Cons y ys)
  show ?case
  proof (cases "y = x0")
    case True
    with Cons.prems have "\<And>x. x \<in> set ys \<Longrightarrow> g x = []" by auto
    then have "concat (map g ys) = []" by simp
    with True show ?thesis by simp
  next
    case False
    with Cons.prems have "concat (map g ys) = g x0" by (intro Cons.IH) auto
    with False Cons.prems show ?thesis by simp
  qed
qed


subsection \<open>Sums over lists\<close>

lemma sum_list_map_uminus: "sum_list (map (\<lambda>x. - f x) xs) = - sum_list (map f xs :: 'a :: ab_group_add list)"
  by (induction xs) simp_all


lemma sum_list_bounded_count:
  assumes "\<And>x. x \<in> set xs \<Longrightarrow> 0 \<le> f x \<and> f x \<le> (K :: int) * (if P x then 1 else 0)"
  shows "0 \<le> sum_list (map f xs) \<and> sum_list (map f xs) \<le> K * int (length (filter P xs))"
  using assms
proof (induction xs)
  case Nil
  then show ?case by simp
next
  case (Cons y ys)
  then have "0 \<le> f y \<and> f y \<le> K * (if P y then 1 else 0)" by simp
  moreover have "0 \<le> sum_list (map f ys) \<and> sum_list (map f ys) \<le> K * int (length (filter P ys))"
    using Cons by simp
  ultimately show ?case by (auto simp: algebra_simps)
qed


lemma of_int_sum_list_map: "of_int (sum_list (map f xs)) = sum_list (map (\<lambda>x. of_int (f x)) xs)"
  by (induction xs) simp_all


subsection \<open>Fail-soft search windows\<close>

text \<open>
  The relation between the value \<open>ab\<close> that a fail-soft alpha-beta search returns for
  the window \<open>(a, b)\<close> and the exact minimax value \<open>v\<close> (Fishburn's condition): below
  the window \<open>ab\<close> is an upper bound of \<open>v\<close>, inside it \<open>ab\<close> is exact, above it \<open>ab\<close> is a
  lower bound. The four step lemmas are one iteration of the maximising and of the
  minimising loop, with and without the cut-off.
\<close>

lemma fishburn_refl: "fishburn a b v v"
  by (simp add: fishburn_def)

lemma fishburnI:
  "(ab \<le> a \<Longrightarrow> v \<le> ab) \<Longrightarrow> (a < ab \<Longrightarrow> ab < b \<Longrightarrow> ab = v) \<Longrightarrow> (b \<le> ab \<Longrightarrow> ab \<le> v)
   \<Longrightarrow> fishburn a b v ab"
  by (simp add: fishburn_def)

lemma fishburnD:
  assumes "fishburn a b v ab"
  shows "ab \<le> a \<Longrightarrow> v \<le> ab" and "a < ab \<Longrightarrow> ab < b \<Longrightarrow> ab = v" and "b \<le> ab \<Longrightarrow> ab \<le> v"
  using assms by (simp_all add: fishburn_def)

lemma fishburn_max_cut:
  fixes a b m e vc vr :: "'a :: linorder"
  assumes "b \<le> max a e" "m \<le> a" "a < b" "fishburn a b vc e"
  shows "fishburn a b (max m (max vc vr)) (max m e)"
proof -
  have be: "b \<le> e" using assms(1,3) by (auto simp: le_max_iff_disj)
  have "m \<le> e" using assms(2,3) be by order
  then have me: "max m e = e" by (rule max_absorb2)
  have "e \<le> vc" using fishburnD(3) [OF assms(4) be] .
  then have "e \<le> max m (max vc vr)" by (simp add: le_max_iff_disj)
  moreover have "\<not> e \<le> a" "\<not> e < b" using assms(3) be by order+
  ultimately show ?thesis unfolding me by (intro fishburnI) simp_all
qed

lemma fishburn_max_step:
  fixes a b m e vc vr r :: "'a :: linorder"
  assumes "\<not> b \<le> max a e" "m \<le> a" "a < b" "fishburn a b vc e"
    "fishburn (max a e) b (max (max m e) vr) r" "max m e \<le> r"
  shows "fishburn a b (max m (max vc vr)) r"
proof (cases "e \<le> a")
  case True
  define V' where "V' = max (max m e) vr"
  have IH: "fishburn a b V' r" using assms(5) True unfolding V'_def by (simp add: max_absorb1)
  have vce: "vc \<le> e" using fishburnD(1) [OF assms(4) True] .
  have mea: "max m e \<le> a" using assms(2) True by simp
  have "m \<le> V'" "vc \<le> V'" "vr \<le> V'" unfolding V'_def using vce by (auto simp: le_max_iff_disj)
  then have VV: "max m (max vc vr) \<le> V'" by simp
  have high: "V' = vr \<and> max m (max vc vr) = vr" if "a < V'"
  proof -
    have avr: "a < vr" using that mea unfolding V'_def by (auto simp: less_max_iff_disj)
    then have "max m e \<le> vr" "m \<le> vr" "vc \<le> vr" using mea vce True assms(2) by order+
    then show ?thesis unfolding V'_def by (simp add: max_absorb2)
  qed
  show ?thesis
  proof (rule fishburnI)
    assume "r \<le> a"
    then have "V' \<le> r" by (rule fishburnD(1) [OF IH])
    then show "max m (max vc vr) \<le> r" using VV by order
  next
    assume "a < r" "r < b"
    then show "r = max m (max vc vr)" using fishburnD(2) [OF IH] high by simp
  next
    assume "b \<le> r"
    then have "r \<le> V'" by (rule fishburnD(3) [OF IH])
    moreover have "a < V'" using \<open>b \<le> r\<close> \<open>r \<le> V'\<close> assms(3) by order
    ultimately show "r \<le> max m (max vc vr)" using high by simp
  qed
next
  case False
  have ea: "max a e = e" using False by (simp add: max_absorb2)
  have eb: "e < b" using assms(1) by (simp add: not_le less_max_iff_disj)
  have vc: "e = vc" using fishburnD(2) [OF assms(4)] False eb by simp
  have me: "max m e = e" using assms(2) False by (simp add: max_absorb2)
  have IH: "fishburn e b (max e vr) r" using assms(5) ea me by simp
  have re: "e \<le> r" using assms(6) me by simp
  have V: "max m (max vc vr) = max e vr" using assms(2) False vc by (auto simp: max_def)
  show ?thesis unfolding V
  proof (rule fishburnI)
    assume "r \<le> a"
    then have "r \<le> e" using False by order
    then show "max e vr \<le> r" by (rule fishburnD(1) [OF IH])
  next
    assume "a < r" "r < b"
    show "r = max e vr"
    proof (cases "r \<le> e")
      case True
      then show ?thesis using fishburnD(1) [OF IH] re by (simp add: antisym)
    next
      case False
      then show ?thesis using fishburnD(2) [OF IH] \<open>r < b\<close> by simp
    qed
  next
    assume "b \<le> r"
    then show "r \<le> max e vr" using fishburnD(3) [OF IH] by simp
  qed
qed

lemma fishburn_min_cut:
  fixes a b m e vc vr :: "'a :: linorder"
  assumes "min b e \<le> a" "b \<le> m" "a < b" "fishburn a b vc e"
  shows "fishburn a b (min m (min vc vr)) (min m e)"
proof -
  have ea: "e \<le> a" using assms(1,3) by (auto simp: min_le_iff_disj)
  have "e \<le> m" using assms(2,3) ea by order
  then have me: "min m e = e" by (rule min_absorb2)
  have "vc \<le> e" using fishburnD(1) [OF assms(4) ea] .
  then have "min m (min vc vr) \<le> e" by (simp add: min_le_iff_disj)
  moreover have "\<not> a < e" "\<not> b \<le> e" using assms(3) ea by order+
  ultimately show ?thesis unfolding me by (intro fishburnI) simp_all
qed

lemma fishburn_min_step:
  fixes a b m e vc vr r :: "'a :: linorder"
  assumes "\<not> min b e \<le> a" "b \<le> m" "a < b" "fishburn a b vc e"
    "fishburn a (min b e) (min (min m e) vr) r" "r \<le> min m e"
  shows "fishburn a b (min m (min vc vr)) r"
proof (cases "b \<le> e")
  case True
  define V' where "V' = min (min m e) vr"
  have IH: "fishburn a b V' r" using assms(5) True unfolding V'_def by (simp add: min_absorb1)
  have vce: "e \<le> vc" using fishburnD(3) [OF assms(4) True] .
  have meb: "b \<le> min m e" using assms(2) True by simp
  have "V' \<le> m" "V' \<le> vc" "V' \<le> vr" unfolding V'_def using vce by (auto simp: min_le_iff_disj)
  then have VV: "V' \<le> min m (min vc vr)" by simp
  have low: "V' = vr \<and> min m (min vc vr) = vr" if "V' < b"
  proof -
    have vrb: "vr < b" using that meb unfolding V'_def by (auto simp: min_less_iff_disj)
    then have "vr \<le> min m e" "vr \<le> m" "vr \<le> vc" using meb vce True assms(2) by order+
    then show ?thesis unfolding V'_def by (simp add: min_absorb2)
  qed
  show ?thesis
  proof (rule fishburnI)
    assume "r \<le> a"
    then have "V' \<le> r" by (rule fishburnD(1) [OF IH])
    moreover have "V' < b" using \<open>r \<le> a\<close> \<open>V' \<le> r\<close> assms(3) by order
    ultimately show "min m (min vc vr) \<le> r" using low by simp
  next
    assume "a < r" "r < b"
    then show "r = min m (min vc vr)" using fishburnD(2) [OF IH] low by simp
  next
    assume "b \<le> r"
    then have "r \<le> V'" by (rule fishburnD(3) [OF IH])
    then show "r \<le> min m (min vc vr)" using VV by order
  qed
next
  case False
  have eb: "min b e = e" using False by (simp add: min_absorb2)
  have ae: "a < e" using assms(1) by (simp add: not_le min_less_iff_disj)
  have vc: "e = vc" using fishburnD(2) [OF assms(4)] False ae by simp
  have me: "min m e = e" using assms(2) False by (simp add: min_absorb2)
  have IH: "fishburn a e (min e vr) r" using assms(5) eb me by simp
  have re: "r \<le> e" using assms(6) me by simp
  have V: "min m (min vc vr) = min e vr" using assms(2) False vc by (auto simp: min_def)
  show ?thesis unfolding V
  proof (rule fishburnI)
    assume "r \<le> a"
    then show "min e vr \<le> r" using fishburnD(1) [OF IH] by simp
  next
    assume "a < r" "r < b"
    show "r = min e vr"
    proof (cases "e \<le> r")
      case True
      then show ?thesis using fishburnD(3) [OF IH] re by (simp add: antisym)
    next
      case False
      then show ?thesis using fishburnD(2) [OF IH] \<open>a < r\<close> by simp
    qed
  next
    assume "b \<le> r"
    then show "r \<le> min e vr" using re False by order
  qed
qed

end
