(* ===== verification/Board.thy ===== *)
theory Board
  imports Prelude
begin

text \<open>
  The data model of \<open>src/src/types/index.ts\<close> and the constants of
  \<open>src/src/constants/index.ts\<close>: players, pieces, the board as a list of rows of
  optional pieces (the source's \<open>Square[][]\<close>), positions with integer coordinates
  (JavaScript numbers; a neighbour of an edge square has a coordinate \<open>-1\<close> or \<open>8\<close>),
  and moves. The source reads a square with optional chaining,
  \<open>board[r]?.[c]\<close>, which is \<open>undefined\<close> off the arrays; \<open>get_sq\<close> returns
  \<open>None\<close> there. Writes \<open>newBoard[r][c] = v\<close> are \<open>set_sq\<close>, a no-op off the
  arrays (the source only writes in-board squares, see \<open>set_sq\<close> below).
\<close>

section \<open>Types\<close>

datatype player = BLACK | WHITE

datatype piece_type = MAN | KING

record piece =
  player :: player
  ptype :: piece_type

type_synonym square = "piece option"
type_synonym board = "square list list"

record position =
  row :: int
  col :: int

text \<open>\<open>from\<close> is a keyword of Isar, so the move's fields are \<open>move_from\<close>, \<open>move_to\<close>.\<close>

record move =
  move_from :: position
  move_to :: position
  captured :: "position list"

record apply_move_result =
  newBoard :: board
  promoted :: bool

datatype game_mode = Single | Two

datatype difficulty = Easy | Medium | Hard

record game_result =
  winner :: player
  winnerName :: string
  score :: int
  moves :: nat
  mode :: game_mode

section \<open>Constants\<close>

definition BOARD_SIZE :: int where
  "BOARD_SIZE = 8"

definition PLAYER_ONE :: player where
  "PLAYER_ONE = WHITE"

definition PLAYER_TWO :: player where
  "PLAYER_TWO = BLACK"

definition AI_DEPTH_HARD :: nat where
  "AI_DEPTH_HARD = 4"

definition AI_DEPTH_HARD_LATE_GAME :: nat where
  "AI_DEPTH_HARD_LATE_GAME = 6"

declare BOARD_SIZE_def [simp] PLAYER_ONE_def [simp] PLAYER_TWO_def [simp]
  AI_DEPTH_HARD_def [simp] AI_DEPTH_HARD_LATE_GAME_def [simp]

section \<open>Board access\<close>

definition is_within_board :: "int \<Rightarrow> int \<Rightarrow> bool" where
  "is_within_board r c \<longleftrightarrow> r \<ge> 0 \<and> r < BOARD_SIZE \<and> c \<ge> 0 \<and> c < BOARD_SIZE"

definition get_opponent :: "player \<Rightarrow> player" where
  "get_opponent p = (if p = WHITE then BLACK else WHITE)"

text \<open>\<open>(r, c)\<close> names an existing cell of the array of rows.\<close>

definition cell :: "board \<Rightarrow> int \<Rightarrow> int \<Rightarrow> bool" where
  "cell b r c \<longleftrightarrow> 0 \<le> r \<and> nat r < length b \<and> 0 \<le> c \<and> nat c < length (b ! nat r)"

text \<open>\<open>board[r]?.[c]\<close>: \<open>undefined\<close> (here \<open>None\<close>) off the row array or off the row.\<close>

definition get_sq :: "board \<Rightarrow> int \<Rightarrow> int \<Rightarrow> square" where
  "get_sq b r c = (if cell b r c then b ! nat r ! nat c else None)"

text \<open>\<open>board[r][c] = v\<close> on an existing cell; elsewhere the board is unchanged.\<close>

definition set_sq :: "board \<Rightarrow> int \<Rightarrow> int \<Rightarrow> square \<Rightarrow> board" where
  "set_sq b r c v = (if cell b r c then b[nat r := (b ! nat r)[nat c := v]] else b)"

abbreviation at :: "board \<Rightarrow> position \<Rightarrow> square" where
  "at b p \<equiv> get_sq b (row p) (col p)"

abbreviation put :: "board \<Rightarrow> position \<Rightarrow> square \<Rightarrow> board" where
  "put b p v \<equiv> set_sq b (row p) (col p) v"

text \<open>
  The 64 squares in the order of the source's double loops
  \<open>for (r = 0; r < BOARD_SIZE; r++) for (c = 0; c < BOARD_SIZE; c++)\<close>.
\<close>

definition board_positions :: "(int \<times> int) list" where
  "board_positions = concat (map (\<lambda>r. map (\<lambda>c. (r, c)) [0..7]) [0..7])"

text \<open>The shape every board of the program has: 8 rows of 8 squares.\<close>

definition wf_board :: "board \<Rightarrow> bool" where
  "wf_board b \<longleftrightarrow> length b = 8 \<and> (\<forall>rw \<in> set b. length rw = 8)"

text \<open>
  Number of squares whose piece satisfies \<open>P\<close>, over the whole array; the
  termination measure of the capture search and, on 8\<times>8 boards, the source's
  piece-counting loops.
\<close>

definition sq_has :: "(piece \<Rightarrow> bool) \<Rightarrow> square \<Rightarrow> bool" where
  "sq_has P s = (case s of Some q \<Rightarrow> P q | None \<Rightarrow> False)"

definition count_sq :: "(piece \<Rightarrow> bool) \<Rightarrow> board \<Rightarrow> nat" where
  "count_sq P b = sum_list (map (\<lambda>rw. length (filter (sq_has P) rw)) b)"

section \<open>The initial board\<close>

text \<open>
  \<open>createInitialBoard\<close>: an empty 8\<times>8 board, then a \<open>PLAYER_TWO\<close> man on every
  dark square (\<open>(row + col) % 2 \<noteq> 0\<close>) of rows 0 to 2, then a \<open>PLAYER_ONE\<close> man on
  every dark square of rows 5 to 7, each loop written as a fold of writes.
\<close>

definition place_men :: "player \<Rightarrow> int list \<Rightarrow> board \<Rightarrow> board" where
  "place_men p rs b =
     fold (\<lambda>r b. fold (\<lambda>c b. if (r + c) mod 2 \<noteq> 0
                              then set_sq b r c (Some \<lparr>player = p, ptype = MAN\<rparr>) else b)
                      [0..BOARD_SIZE - 1] b) rs b"

definition createInitialBoard :: board where
  "createInitialBoard =
     place_men PLAYER_ONE [BOARD_SIZE - 3..BOARD_SIZE - 1]
       (place_men PLAYER_TWO [0..2] (replicate 8 (replicate 8 None)))"

text \<open>
  A board with the listed pieces on an otherwise empty 8\<times>8 array; used to state
  concrete positions (scenarios and witnesses), not a function of the source.
\<close>

definition board_of :: "((int \<times> int) \<times> piece) list \<Rightarrow> board" where
  "board_of ps = fold (\<lambda>((r, c), q) b. set_sq b r c (Some q)) ps (replicate 8 (replicate 8 None))"

section \<open>Lemmas on board access\<close>

lemma position_eta [simp]: "\<lparr>row = row p, col = col p\<rparr> = (p :: position)"
  by (cases p) simp

lemma position_eqI: "row p = row q \<Longrightarrow> col p = col q \<Longrightarrow> p = (q :: position)"
  by (cases p, cases q) simp


lemma get_opponent_simps [simp]:
  "get_opponent WHITE = BLACK" "get_opponent BLACK = WHITE"
  by (simp_all add: get_opponent_def)

lemma get_opponent_involutive [simp]: "get_opponent (get_opponent p) = p"
  by (cases p) simp_all

lemma get_opponent_neq [simp]: "get_opponent p \<noteq> p" "p \<noteq> get_opponent p"
  by (cases p; simp)+

lemma player_cases_opponent: "q \<noteq> p \<Longrightarrow> q = get_opponent p"
  by (cases p; cases q) simp_all

lemma cell_set_sq [simp]: "cell (set_sq b r c v) r' c' = cell b r' c'"
  by (auto simp: cell_def set_sq_def nth_list_update)

lemma get_sq_set_sq [board_simps]:
  "get_sq (set_sq b r c v) r' c' =
     (if r' = r \<and> c' = c \<and> cell b r c then v else get_sq b r' c')"
  by (auto simp: get_sq_def set_sq_def cell_def nth_list_update)

lemma get_sq_not_cell: "\<not> cell b r c \<Longrightarrow> get_sq b r c = None"
  by (simp add: get_sq_def)

lemma length_set_sq [simp]: "length (set_sq b r c v) = length b"
  by (simp add: set_sq_def)

lemma set_sq_rows:
  "rw \<in> set (set_sq b r c v) \<Longrightarrow> (\<forall>rw \<in> set b. length rw = n) \<Longrightarrow> length rw = n"
  by (auto simp: set_sq_def cell_def split: if_splits dest!: set_update_subset_insert [THEN subsetD])

lemma wf_board_set_sq [simp]: "wf_board b \<Longrightarrow> wf_board (set_sq b r c v)"
  unfolding wf_board_def by (metis length_set_sq set_sq_rows)

lemma cell_wf_board: "wf_board b \<Longrightarrow> cell b r c \<longleftrightarrow> is_within_board r c"
  by (auto simp: cell_def wf_board_def is_within_board_def)

lemma get_sq_Some_in_board:
  "wf_board b \<Longrightarrow> get_sq b r c = Some q \<Longrightarrow> is_within_board r c"
  by (auto simp: get_sq_def cell_wf_board split: if_splits)

lemma get_sq_set_sq_wf [board_simps]:
  "wf_board b \<Longrightarrow> is_within_board r c \<Longrightarrow>
   get_sq (set_sq b r c v) r' c' = (if r' = r \<and> c' = c then v else get_sq b r' c')"
  by (simp add: get_sq_set_sq cell_wf_board)

lemma count_sq_set_sq:
  assumes "cell b r c"
  shows "count_sq P (set_sq b r c v) + (if sq_has P (get_sq b r c) then 1 else 0)
         = count_sq P b + (if sq_has P v then 1 else 0)"
proof -
  let ?f = "\<lambda>rw. length (filter (sq_has P) rw)"
  let ?i = "nat r" and ?j = "nat c"
  have row: "?f ((b ! ?i)[?j := v]) + (if sq_has P (b ! ?i ! ?j) then 1 else 0)
             = ?f (b ! ?i) + (if sq_has P v then 1 else 0)"
    using assms by (intro length_filter_update) (simp add: cell_def)
  have "sum_list (map ?f (b[?i := (b ! ?i)[?j := v]])) + ?f (b ! ?i)
        = sum_list (map ?f b) + ?f ((b ! ?i)[?j := v])"
    using assms by (intro sum_list_map_update) (simp add: cell_def)
  with row assms show ?thesis
    by (simp add: count_sq_def set_sq_def get_sq_def)
qed

lemma count_sq_set_sq_le:
  "\<not> sq_has P v \<Longrightarrow> count_sq P (set_sq b r c v) \<le> count_sq P b"
  using count_sq_set_sq [of b r c P v] by (auto simp: set_sq_def split: if_splits)

lemma count_sq_set_sq_less:
  "sq_has P (get_sq b r c) \<Longrightarrow> \<not> sq_has P v \<Longrightarrow> count_sq P (set_sq b r c v) < count_sq P b"
  using count_sq_set_sq [of b r c P v]
  by (auto simp: get_sq_def sq_has_def split: if_splits)

text \<open>
  One capture step of the search writes the mover onto the empty landing square,
  clears its origin and clears the jumped square. If the jumped square holds a piece
  of kind \<open>P\<close> and the mover is not of kind \<open>P\<close>, the number of \<open>P\<close> pieces drops.
\<close>

lemma count_sq_capture_step:
  assumes opp: "sq_has P (get_sq b r1 c1)" and land: "get_sq b r2 c2 = None"
    and mover: "\<not> P pc" and origin: "(r1, c1) \<noteq> (r0, c0)"
  shows "count_sq P (set_sq (set_sq (set_sq b r2 c2 (Some pc)) r0 c0 None) r1 c1 None)
         < count_sq P b"
proof -
  let ?b1 = "set_sq b r2 c2 (Some pc)"
  let ?b2 = "set_sq ?b1 r0 c0 None"
  have ne: "(r1, c1) \<noteq> (r2, c2)" using opp land by (auto simp: sq_has_def)
  have "get_sq ?b2 r1 c1 = get_sq b r1 c1"
    using ne origin by (auto simp: get_sq_set_sq)
  then have "sq_has P (get_sq ?b2 r1 c1)" using opp by simp
  then have "count_sq P (set_sq ?b2 r1 c1 None) < count_sq P ?b2"
    by (rule count_sq_set_sq_less) (simp add: sq_has_def)
  also have "count_sq P ?b2 \<le> count_sq P ?b1"
    by (rule count_sq_set_sq_le) (simp add: sq_has_def)
  also have "count_sq P ?b1 \<le> count_sq P b"
    by (rule count_sq_set_sq_le) (simp add: sq_has_def mover)
  finally show ?thesis .
qed

text \<open>The same step for a jump from \<open>(r, c)\<close> in direction \<open>(dr, dc)\<close>.\<close>

lemma count_sq_jump:
  assumes opp: "sq_has P (get_sq b (r + dr) (c + dc))"
    and land: "get_sq b (r + 2 * dr) (c + 2 * dc) = None" and mover: "\<not> P pc"
  shows "count_sq P (set_sq (set_sq (set_sq b (r + 2 * dr) (c + 2 * dc) (Some pc)) r c None)
                      (r + dr) (c + dc) None) < count_sq P b"
proof (rule count_sq_capture_step [OF opp land mover])
  show "(r + dr, c + dc) \<noteq> (r, c)"
  proof
    assume "(r + dr, c + dc) = (r, c)"
    then have "r + 2 * dr = r + dr" and "c + 2 * dc = c + dc" by simp_all
    with opp land show False by (simp add: sq_has_def)
  qed
qed

lemma set_board_positions:
  "set board_positions = {(r, c). 0 \<le> r \<and> r < 8 \<and> 0 \<le> c \<and> c < 8}"
  by (force simp: board_positions_def)

lemma distinct_board_positions: "distinct board_positions"
  unfolding board_positions_def by code_simp

end
