(* ===== verification/MoveGen.thy ===== *)
theory MoveGen
  imports Board
begin

text \<open>
  The move generator of \<open>src/src/game/logic.ts\<close>: the recursive capture-chain
  search \<open>findPieceCaptureMovesRecursive\<close> (its \<open>for\<close> loop over the piece's
  directions is \<open>captureDirections\<close>), the per-piece longest-chain filter
  \<open>findPieceCaptureMoves\<close>, the player-wide mandatory-capture filter
  \<open>findCaptureMoves\<close>, the single-step moves (\<open>stepMoves\<close>, the loop body shared by
  \<open>getValidMoves\<close> and \<open>findStandardMoves\<close>), and \<open>getAllPlayerMoves\<close>.
  The search recurses on a copy of the board with the jumped piece removed; it
  terminates because the number of enemy pieces on the board drops at every call
  (\<open>count_sq_jump\<close>).
\<close>

section \<open>Definitions\<close>

text \<open>A man steps toward the opponent's edge (white up, to row 0; black down); a king
  steps along all four diagonals.\<close>

definition directions :: "piece \<Rightarrow> (int \<times> int) list" where
  "directions pc =
     (if ptype pc = KING then [(-1, -1), (-1, 1), (1, -1), (1, 1)]
      else if player pc = WHITE then [(-1, -1), (-1, 1)] else [(1, -1), (1, 1)])"

text \<open>\<open>opponentPiece?.player === getOpponent(piece.player)\<close>\<close>

definition is_enemy_of :: "piece \<Rightarrow> piece \<Rightarrow> bool" where
  "is_enemy_of pc q \<longleftrightarrow> player q = get_opponent (player pc)"

text \<open>
  One call of \<open>findPieceCaptureMovesRecursive(board, from, piece, capturedSoFar)\<close>;
  \<open>captureDirections\<close> is its loop, one direction \<open>(dRow, dCol)\<close> per step, pushing
  the moves of that direction before those of the later directions. The source's
  guard \<open>!piece || !piece.player\<close> cannot fail on a typed piece and is omitted.
\<close>

function findPieceCaptureMovesRecursive ::
  "board \<Rightarrow> position \<Rightarrow> piece \<Rightarrow> position list \<Rightarrow> move list"
and captureDirections ::
  "board \<Rightarrow> position \<Rightarrow> piece \<Rightarrow> position list \<Rightarrow> (int \<times> int) list \<Rightarrow> move list"
where
  "findPieceCaptureMovesRecursive b frm pc cs = captureDirections b frm pc cs (directions pc)"
| "captureDirections b frm pc cs [] = []"
| "captureDirections b frm pc cs ((dr, dc) # ds) =
     (let opp = \<lparr>row = row frm + dr, col = col frm + dc\<rparr>;
          land = \<lparr>row = row frm + 2 * dr, col = col frm + 2 * dc\<rparr>
      in (if is_within_board (row land) (col land) \<and> at b land = None
             \<and> sq_has (is_enemy_of pc) (at b opp)
             \<and> \<not> list_ex (\<lambda>p. row p = row opp \<and> col p = col opp) cs
          then (let nb = put (put (put b land (Some pc)) frm None) opp None;
                    ncs = cs @ [opp];
                    chained = findPieceCaptureMovesRecursive nb land pc ncs
                in if chained \<noteq> [] then map (\<lambda>m. m\<lparr>move_from := frm\<rparr>) chained
                   else [\<lparr>move_from = frm, move_to = land, captured = ncs\<rparr>])
          else []) @ captureDirections b frm pc cs ds)"
  by pat_completeness auto
termination
  by (relation "measures
    [\<lambda>x. case x of Inl (b, frm, pc, cs) \<Rightarrow> count_sq (is_enemy_of pc) b
                | Inr (b, frm, pc, cs, ds) \<Rightarrow> count_sq (is_enemy_of pc) b,
     \<lambda>x. case x of Inl _ \<Rightarrow> 1 | Inr _ \<Rightarrow> 0,
     \<lambda>x. case x of Inl _ \<Rightarrow> 0 | Inr (b, frm, pc, cs, ds) \<Rightarrow> length ds]")
     (auto intro!: count_sq_jump simp: is_enemy_of_def)

text \<open>
  The loop \<open>forEach(move => if (len > longest) longest = len)\<close> from 0, and the filter
  that keeps the moves of that length; the source writes the same two steps in
  \<open>findPieceCaptureMoves\<close> and in \<open>findCaptureMoves\<close>.
\<close>

definition longest_captured :: "move list \<Rightarrow> nat" where
  "longest_captured ms =
     foldl (\<lambda>m mv. if m < length (captured mv) then length (captured mv) else m) 0 ms"

definition keep_longest :: "move list \<Rightarrow> move list" where
  "keep_longest ms = filter (\<lambda>mv. length (captured mv) = longest_captured ms) ms"

definition findPieceCaptureMoves :: "board \<Rightarrow> position \<Rightarrow> piece \<Rightarrow> move list" where
  "findPieceCaptureMoves b frm pc =
     (let chains = findPieceCaptureMovesRecursive b frm pc []
      in if chains = [] then [] else keep_longest chains)"

text \<open>The double loop over the squares, calling \<open>f\<close> on each piece of player \<open>p\<close>.\<close>

definition scan_pieces ::
  "board \<Rightarrow> player \<Rightarrow> (position \<Rightarrow> piece \<Rightarrow> move list) \<Rightarrow> move list" where
  "scan_pieces b p f =
     concat (map (\<lambda>(r, c). case get_sq b r c of
                              Some pc \<Rightarrow> if player pc = p then f \<lparr>row = r, col = c\<rparr> pc else []
                            | None \<Rightarrow> []) board_positions)"

definition findCaptureMoves :: "board \<Rightarrow> player \<Rightarrow> move list" where
  "findCaptureMoves b p =
     (let cms = scan_pieces b p (findPieceCaptureMoves b)
      in if cms = [] then [] else keep_longest cms)"

text \<open>The single diagonal steps onto empty in-board squares.\<close>

definition stepMoves :: "board \<Rightarrow> position \<Rightarrow> piece \<Rightarrow> move list" where
  "stepMoves b frm pc =
     concat (map (\<lambda>(dr, dc). let t = \<lparr>row = row frm + dr, col = col frm + dc\<rparr>
                             in if is_within_board (row t) (col t) \<and> at b t = None
                                then [\<lparr>move_from = frm, move_to = t, captured = []\<rparr>] else [])
                 (directions pc))"

definition getValidMoves :: "board \<Rightarrow> position \<Rightarrow> move list" where
  "getValidMoves b frm =
     (case at b frm of
        None \<Rightarrow> []
      | Some pc \<Rightarrow>
          (let cms = findCaptureMoves b (player pc)
           in if cms \<noteq> []
              then filter (\<lambda>m. row (move_from m) = row frm \<and> col (move_from m) = col frm) cms
              else stepMoves b frm pc))"

definition findStandardMoves :: "board \<Rightarrow> player \<Rightarrow> move list" where
  "findStandardMoves b p = scan_pieces b p (stepMoves b)"

definition getAllPlayerMoves :: "board \<Rightarrow> player \<Rightarrow> move list" where
  "getAllPlayerMoves b p =
     (let cms = findCaptureMoves b p in if cms \<noteq> [] then cms else findStandardMoves b p)"

subsection \<open>Specification predicates\<close>

text \<open>
  What a capture chain found from \<open>frm\<close> with the squares \<open>cs\<close> already taken is:
  it starts at \<open>frm\<close>, extends \<open>cs\<close> by a non-empty list of new, distinct squares,
  each holding an enemy piece on the board searched, no more of them than there are
  enemy pieces, and it ends on the board.
\<close>

definition valid_chain :: "board \<Rightarrow> position \<Rightarrow> piece \<Rightarrow> position list \<Rightarrow> move \<Rightarrow> bool" where
  "valid_chain b frm pc cs m \<longleftrightarrow>
     move_from m = frm \<and> take (length cs) (captured m) = cs \<and>
     is_within_board (row (move_to m)) (col (move_to m)) \<and>
     (let ext = drop (length cs) (captured m)
      in ext \<noteq> [] \<and> distinct ext \<and> (\<forall>p\<in>set ext. p \<notin> set cs)
         \<and> (\<forall>p\<in>set ext. sq_has (is_enemy_of pc) (at b p))
         \<and> length ext \<le> count_sq (is_enemy_of pc) b)"

text \<open>Every capture chain of every piece of \<open>p\<close>, before any longest-chain filter.\<close>

definition allCaptureChains :: "board \<Rightarrow> player \<Rightarrow> move list" where
  "allCaptureChains b p = scan_pieces b p (\<lambda>frm pc. findPieceCaptureMovesRecursive b frm pc [])"

subsection \<open>Boards used to exercise the theorems\<close>

text \<open>A white man on (5, 2) with a black man diagonally ahead on (4, 3) and (3, 4) empty.\<close>

definition single_capture_board :: board where
  "single_capture_board =
     board_of [((5, 2), \<lparr>player = WHITE, ptype = MAN\<rparr>), ((4, 3), \<lparr>player = BLACK, ptype = MAN\<rparr>),
               ((6, 5), \<lparr>player = WHITE, ptype = MAN\<rparr>)]"

text \<open>A white man on (6, 1) that can jump (5, 2) and then (3, 4), or only (5, 0)'s neighbour.\<close>

definition double_jump_board :: board where
  "double_jump_board =
     board_of [((6, 1), \<lparr>player = WHITE, ptype = MAN\<rparr>), ((5, 2), \<lparr>player = BLACK, ptype = MAN\<rparr>),
               ((3, 4), \<lparr>player = BLACK, ptype = MAN\<rparr>), ((5, 0), \<lparr>player = BLACK, ptype = MAN\<rparr>)]"

section \<open>Capture chains\<close>

lemma list_ex_same_square:
  "list_ex (\<lambda>p. row p = row q \<and> col p = col q) xs \<longleftrightarrow> (q :: position) \<in> set xs"
  by (auto simp: list_ex_iff) (metis position_eqI)

lemma count_sq_pos: "sq_has P (get_sq b r c) \<Longrightarrow> 0 < count_sq P b"
  using count_sq_set_sq_less [of P b r c None] by (simp add: sq_has_def)

lemma enemy_after_jump:
  assumes "sq_has (is_enemy_of pc) (get_sq (put (put (put b land (Some pc)) frm None) opp None) r c)"
  shows "sq_has (is_enemy_of pc) (get_sq b r c) \<and> (r, c) \<noteq> (row opp, col opp)"
  using assms
  by (auto simp: get_sq_set_sq sq_has_def is_enemy_of_def get_sq_not_cell
           split: if_splits option.splits)

lemma valid_chain_extend:
  assumes v: "valid_chain nb land pc (cs @ [opp]) m"
    and opp: "sq_has (is_enemy_of pc) (at b opp)" and notin: "opp \<notin> set cs"
    and dec: "count_sq (is_enemy_of pc) nb < count_sq (is_enemy_of pc) b"
    and eback: "\<And>p. sq_has (is_enemy_of pc) (at nb p) \<Longrightarrow> sq_has (is_enemy_of pc) (at b p)"
  shows "valid_chain b frm pc cs (m\<lparr>move_from := frm\<rparr>)"
proof -
  let ?ext = "drop (length (cs @ [opp])) (captured m)"
  from v have tk: "take (Suc (length cs)) (captured m) = cs @ [opp]" by (simp add: valid_chain_def)
  then have cm_split: "captured m = cs @ opp # ?ext"
    by (metis append.assoc append_Cons append_Nil append_take_drop_id length_append_singleton)
  have d: "drop (length cs) (captured m) = opp # ?ext"
    by (subst cm_split) simp
  have tk': "take (length cs) (captured m) = cs" by (subst cm_split) simp
  from v show ?thesis
    unfolding valid_chain_def Let_def using tk' d opp notin dec eback
    by (auto simp del: length_append intro: order.trans)
qed

lemma valid_chain_Nil:
  "valid_chain b frm pc [] m \<longleftrightarrow>
     move_from m = frm \<and> is_within_board (row (move_to m)) (col (move_to m)) \<and>
     captured m \<noteq> [] \<and> distinct (captured m) \<and>
     (\<forall>p\<in>set (captured m). sq_has (is_enemy_of pc) (at b p)) \<and>
     length (captured m) \<le> count_sq (is_enemy_of pc) b"
  by (simp add: valid_chain_def Let_def)

lemma captureDirections_Cons:
  "captureDirections b frm pc cs ((dr, dc) # ds) =
     (let opp = \<lparr>row = row frm + dr, col = col frm + dc\<rparr>;
          land = \<lparr>row = row frm + 2 * dr, col = col frm + 2 * dc\<rparr>;
          nb = put (put (put b land (Some pc)) frm None) opp None
      in (if is_within_board (row land) (col land) \<and> at b land = None
             \<and> sq_has (is_enemy_of pc) (at b opp) \<and> opp \<notin> set cs
          then (if findPieceCaptureMovesRecursive nb land pc (cs @ [opp]) \<noteq> []
                then map (\<lambda>m. m\<lparr>move_from := frm\<rparr>)
                       (findPieceCaptureMovesRecursive nb land pc (cs @ [opp]))
                else [\<lparr>move_from = frm, move_to = land, captured = cs @ [opp]\<rparr>])
          else []) @ captureDirections b frm pc cs ds)"
  by (simp only: captureDirections.simps list_ex_same_square Let_def)

text \<open>Every chain the search returns is a valid chain: mutual computation induction.\<close>

lemma chain_valid:
  shows "m \<in> set (findPieceCaptureMovesRecursive b frm pc cs) \<Longrightarrow> valid_chain b frm pc cs m"
    and "m \<in> set (captureDirections b frm pc cs ds) \<Longrightarrow> valid_chain b frm pc cs m"
proof (induction b frm pc cs and b frm pc cs ds arbitrary: m and m
       rule: findPieceCaptureMovesRecursive_captureDirections.induct)
  case (1 b frm pc cs)
  then show ?case by simp
next
  case (2 b frm pc cs)
  then show ?case by simp
next
  case (3 b frm pc cs dr dc ds)
  define opp where "opp = \<lparr>row = row frm + dr, col = col frm + dc\<rparr>"
  define land where "land = \<lparr>row = row frm + 2 * dr, col = col frm + 2 * dc\<rparr>"
  define nb where "nb = put (put (put b land (Some pc)) frm None) opp None"
  define G where "G \<longleftrightarrow> is_within_board (row land) (col land) \<and> at b land = None
      \<and> sq_has (is_enemy_of pc) (at b opp) \<and> opp \<notin> set cs"
  let ?ch = "findPieceCaptureMovesRecursive nb land pc (cs @ [opp])"
  have eq: "captureDirections b frm pc cs ((dr, dc) # ds) =
     (if G then (if ?ch \<noteq> [] then map (\<lambda>m. m\<lparr>move_from := frm\<rparr>) ?ch
                 else [\<lparr>move_from = frm, move_to = land, captured = cs @ [opp]\<rparr>])
      else []) @ captureDirections b frm pc cs ds"
    unfolding captureDirections_Cons by (simp add: opp_def land_def nb_def G_def Let_def)
  show ?case
  proof (cases "m \<in> set (captureDirections b frm pc cs ds)")
    case True
    then show ?thesis by (rule "3.IH"(2) [OF refl refl])
  next
    case False
    with "3.prems" eq have G and
      m: "m \<in> set (if ?ch \<noteq> [] then map (\<lambda>m. m\<lparr>move_from := frm\<rparr>) ?ch
                   else [\<lparr>move_from = frm, move_to = land, captured = cs @ [opp]\<rparr>])"
      by (auto split: if_splits)
    from \<open>G\<close> have opp: "sq_has (is_enemy_of pc) (at b opp)" and notin: "opp \<notin> set cs"
      and inb: "is_within_board (row land) (col land)"
      by (simp_all add: G_def)
    have dec: "count_sq (is_enemy_of pc) nb < count_sq (is_enemy_of pc) b"
      using \<open>G\<close> unfolding nb_def G_def opp_def land_def
      by (auto intro!: count_sq_jump simp: is_enemy_of_def)
    have eback: "sq_has (is_enemy_of pc) (at b p)" if "sq_has (is_enemy_of pc) (at nb p)" for p
      using enemy_after_jump that unfolding nb_def by blast
    show ?thesis
    proof (cases "?ch = []")
      case True
      with m opp notin inb show ?thesis
        by (auto simp: valid_chain_def intro: count_sq_pos [THEN Suc_leI])
    next
      case False
      with m obtain m' where m': "m' \<in> set ?ch" and mm: "m = m'\<lparr>move_from := frm\<rparr>" by auto
      have "valid_chain nb land pc (cs @ [opp]) m'"
        using "3.IH"(1) [OF opp_def land_def _ nb_def refl] \<open>G\<close> m'
        unfolding G_def list_ex_same_square by blast
      then show ?thesis unfolding mm using opp notin dec eback by (rule valid_chain_extend)
    qed
  qed
qed


section \<open>Longest-chain filters\<close>

lemma keep_longest_subset: "set (keep_longest ms) \<subseteq> set ms"
  by (auto simp: keep_longest_def)

lemma keep_longest_max:
  "m \<in> set (keep_longest ms) \<Longrightarrow> m' \<in> set ms \<Longrightarrow> length (captured m') \<le> length (captured m)"
  unfolding keep_longest_def longest_captured_def
  by (auto intro: foldl_running_max_ge [where f = "\<lambda>mv. length (captured mv)"])

lemma keep_longest_nonempty: "ms \<noteq> [] \<Longrightarrow> keep_longest ms \<noteq> []"
  unfolding keep_longest_def longest_captured_def
  by (rule filter_running_max_nonempty [where f = "\<lambda>mv. length (captured mv)"]) simp_all

lemma findPieceCaptureMoves_subset:
  "set (findPieceCaptureMoves b frm pc) \<subseteq> set (findPieceCaptureMovesRecursive b frm pc [])"
  using keep_longest_subset by (auto simp: findPieceCaptureMoves_def Let_def)

lemma findPieceCaptureMoves_empty_iff:
  "findPieceCaptureMoves b frm pc = [] \<longleftrightarrow> findPieceCaptureMovesRecursive b frm pc [] = []"
  using keep_longest_nonempty by (auto simp: findPieceCaptureMoves_def Let_def)

lemma findPieceCaptureMoves_valid:
  "m \<in> set (findPieceCaptureMoves b frm pc) \<Longrightarrow> valid_chain b frm pc [] m"
  using findPieceCaptureMoves_subset chain_valid(1) by blast

section \<open>The scan over the board\<close>

lemma mem_scan_pieces:
  "m \<in> set (scan_pieces b p f) \<longleftrightarrow>
   (\<exists>r c pc. is_within_board r c \<and> get_sq b r c = Some pc \<and> player pc = p
             \<and> m \<in> set (f \<lparr>row = r, col = c\<rparr> pc))"
  unfolding scan_pieces_def set_concat set_map set_board_positions is_within_board_def
  by (auto split: option.splits if_splits) (metis option.simps(5))+

lemma scan_pieces_empty_iff:
  "scan_pieces b p f = [] \<longleftrightarrow>
   (\<forall>r c pc. is_within_board r c \<and> get_sq b r c = Some pc \<and> player pc = p
             \<longrightarrow> f \<lparr>row = r, col = c\<rparr> pc = [])"
  using mem_scan_pieces [of _ b p f] by (metis ex_in_conv set_empty)

lemma scan_pieces_cong:
  "(\<And>pos pc. f pos pc = [] \<longleftrightarrow> g pos pc = []) \<Longrightarrow>
   scan_pieces b p f = [] \<longleftrightarrow> scan_pieces b p g = []"
  by (simp add: scan_pieces_empty_iff)

lemma findCaptureMoves_empty_iff:
  "findCaptureMoves b p = [] \<longleftrightarrow> allCaptureChains b p = []"
  unfolding findCaptureMoves_def allCaptureChains_def Let_def
  using keep_longest_nonempty scan_pieces_cong [OF findPieceCaptureMoves_empty_iff]
  by auto

lemma findCaptureMoves_max:
  assumes m: "m \<in> set (findCaptureMoves b p)" and m': "m' \<in> set (allCaptureChains b p)"
  shows "length (captured m') \<le> length (captured m)"
proof -
  let ?cms = "scan_pieces b p (findPieceCaptureMoves b)"
  from m have m_keep: "m \<in> set (keep_longest ?cms)"
    by (auto simp: findCaptureMoves_def Let_def split: if_splits)
  from m' obtain r c pc where sq: "is_within_board r c" "get_sq b r c = Some pc" "player pc = p"
    and ch: "m' \<in> set (findPieceCaptureMovesRecursive b \<lparr>row = r, col = c\<rparr> pc [])"
    by (auto simp: allCaptureChains_def mem_scan_pieces)
  let ?ps = "findPieceCaptureMoves b \<lparr>row = r, col = c\<rparr> pc"
  have "?ps \<noteq> []" using ch findPieceCaptureMoves_empty_iff by fastforce
  then obtain m'' where m'': "m'' \<in> set ?ps" by (cases ?ps) auto
  then have "length (captured m') \<le> length (captured m'')"
    using ch by (simp add: findPieceCaptureMoves_def Let_def keep_longest_max split: if_splits)
  also have "m'' \<in> set ?cms" using sq m'' by (auto simp: mem_scan_pieces)
  then have "length (captured m'') \<le> length (captured m)" by (rule keep_longest_max [OF m_keep])
  finally show ?thesis .
qed

lemma findCaptureMoves_valid:
  assumes "m \<in> set (findCaptureMoves b p)"
  shows "\<exists>pc. at b (move_from m) = Some pc \<and> player pc = p
              \<and> valid_chain b (move_from m) pc [] m"
proof -
  from assms have "m \<in> set (scan_pieces b p (findPieceCaptureMoves b))"
    using keep_longest_subset by (auto simp: findCaptureMoves_def Let_def split: if_splits)
  then obtain r c pc where "get_sq b r c = Some pc" "player pc = p"
    and "m \<in> set (findPieceCaptureMoves b \<lparr>row = r, col = c\<rparr> pc)"
    by (auto simp: mem_scan_pieces)
  moreover from this(3) have "valid_chain b \<lparr>row = r, col = c\<rparr> pc [] m"
    by (rule findPieceCaptureMoves_valid)
  ultimately show ?thesis by (auto simp: valid_chain_def)
qed


section \<open>Single steps\<close>

lemma mem_stepMoves:
  "m \<in> set (stepMoves b frm pc) \<longleftrightarrow>
   (\<exists>dr dc. (dr, dc) \<in> set (directions pc) \<and>
      m = \<lparr>move_from = frm, move_to = \<lparr>row = row frm + dr, col = col frm + dc\<rparr>, captured = []\<rparr>
      \<and> is_within_board (row frm + dr) (col frm + dc) \<and> get_sq b (row frm + dr) (col frm + dc) = None)"
  by (auto simp: stepMoves_def Let_def split: if_splits)

lemma stepMoves_from: "m \<in> set (stepMoves b frm pc) \<Longrightarrow> move_from m = frm"
  by (auto simp: mem_stepMoves)

lemma filter_from_scan_stepMoves:
  assumes "wf_board b" and "at b frm = Some pc"
  shows "filter (\<lambda>m. move_from m = frm) (scan_pieces b p (stepMoves b))
         = (if player pc = p then stepMoves b frm pc else [])"
proof -
  let ?g = "\<lambda>(r, c). filter (\<lambda>m. move_from m = frm)
              (case get_sq b r c of
                 Some pc \<Rightarrow> if player pc = p then stepMoves b \<lparr>row = r, col = c\<rparr> pc else []
               | None \<Rightarrow> [])"
  have inb: "(row frm, col frm) \<in> set board_positions"
    using get_sq_Some_in_board [OF assms] by (simp add: set_board_positions is_within_board_def)
  have other: "?g x = []" if "x \<noteq> (row frm, col frm)" for x
    using that stepMoves_from
    by (cases x) (fastforce simp: filter_empty_conv split: option.splits)
  have "filter (\<lambda>m. move_from m = frm) (scan_pieces b p (stepMoves b))
        = concat (map ?g board_positions)"
    by (simp add: scan_pieces_def filter_concat comp_def case_prod_unfold)
  also have "\<dots> = ?g (row frm, col frm)"
    by (rule concat_map_single [OF distinct_board_positions inb other])
  also have "\<dots> = (if player pc = p then stepMoves b frm pc else [])"
    using assms(2) stepMoves_from by (auto intro: filter_True)
  finally show ?thesis .
qed

lemma findStandardMoves_sound:
  "m \<in> set (findStandardMoves b p) \<Longrightarrow>
   \<exists>pc. at b (move_from m) = Some pc \<and> player pc = p \<and> captured m = []
        \<and> is_within_board (row (move_to m)) (col (move_to m)) \<and> at b (move_to m) = None
        \<and> (row (move_to m) - row (move_from m), col (move_to m) - col (move_from m))
            \<in> set (directions pc)"
  by (fastforce simp: findStandardMoves_def mem_scan_pieces mem_stepMoves)


section \<open>Properties of the move generator\<close>

lemma getAllPlayerMoves_captures:
  "allCaptureChains b p \<noteq> [] \<Longrightarrow> getAllPlayerMoves b p = findCaptureMoves b p"
  by (simp add: getAllPlayerMoves_def findCaptureMoves_empty_iff Let_def)

lemma getAllPlayerMoves_quiet:
  "allCaptureChains b p = [] \<Longrightarrow> getAllPlayerMoves b p = findStandardMoves b p"
  by (simp add: getAllPlayerMoves_def findCaptureMoves_empty_iff Let_def)

text \<open>
  C1 (mandatory capture). When some piece of the side to move has a capture chain,
  every move of the side's legal set captures, and captures at least as many pieces
  as any chain of any of its pieces: quiet moves and shorter chains are not legal.
\<close>

theorem forced_capture_supremacy:
  assumes "allCaptureChains b p \<noteq> []" and "m \<in> set (getAllPlayerMoves b p)"
  shows "captured m \<noteq> [] \<and>
         (\<forall>m' \<in> set (allCaptureChains b p). length (captured m') \<le> length (captured m))"
proof -
  from assms have m: "m \<in> set (findCaptureMoves b p)" by (simp add: getAllPlayerMoves_captures)
  then obtain pc where "valid_chain b (move_from m) pc [] m"
    using findCaptureMoves_valid by blast
  then have "captured m \<noteq> []" by (simp add: valid_chain_Nil)
  with m show ?thesis using findCaptureMoves_max by blast
qed

theorem forced_capture_supremacy_witness:
  "allCaptureChains double_jump_board WHITE \<noteq> [] \<and>
   \<lparr>move_from = \<lparr>row = 6, col = 1\<rparr>, move_to = \<lparr>row = 2, col = 5\<rparr>,
     captured = [\<lparr>row = 5, col = 2\<rparr>, \<lparr>row = 3, col = 4\<rparr>]\<rparr>
     \<in> set (getAllPlayerMoves double_jump_board WHITE) \<and> 2 \<le> (2 :: nat)"
proof -
  have h1: "allCaptureChains double_jump_board WHITE \<noteq> []"
    by (simp add: double_jump_board_def board_of_def) code_simp
  have h2: "\<lparr>move_from = \<lparr>row = 6, col = 1\<rparr>, move_to = \<lparr>row = 2, col = 5\<rparr>,
     captured = [\<lparr>row = 5, col = 2\<rparr>, \<lparr>row = 3, col = 4\<rparr>]\<rparr>
     \<in> set (getAllPlayerMoves double_jump_board WHITE)"
    by (simp add: double_jump_board_def board_of_def) code_simp
  show ?thesis using forced_capture_supremacy [OF h1 h2] h1 h2 by simp
qed


text \<open>
  C2 (longest chain per piece). The moves \<open>findPieceCaptureMoves\<close> keeps for one piece
  are chains of that piece of maximal length among all the chains the recursive search
  finds for it; the intermediate stops and the shorter branches are dropped.
\<close>

theorem longest_chain_per_piece:
  assumes "m \<in> set (findPieceCaptureMoves b frm pc)"
    and "m' \<in> set (findPieceCaptureMovesRecursive b frm pc [])"
  shows "m \<in> set (findPieceCaptureMovesRecursive b frm pc [])
         \<and> length (captured m') \<le> length (captured m)"
proof -
  from assms(1) have "m \<in> set (keep_longest (findPieceCaptureMovesRecursive b frm pc []))"
    by (simp add: findPieceCaptureMoves_def Let_def split: if_splits)
  with assms(2) show ?thesis using keep_longest_subset keep_longest_max by blast
qed

theorem longest_chain_per_piece_witness:
  "\<lparr>move_from = \<lparr>row = 6, col = 1\<rparr>, move_to = \<lparr>row = 2, col = 5\<rparr>,
     captured = [\<lparr>row = 5, col = 2\<rparr>, \<lparr>row = 3, col = 4\<rparr>]\<rparr>
     \<in> set (findPieceCaptureMoves double_jump_board \<lparr>row = 6, col = 1\<rparr> \<lparr>player = WHITE, ptype = MAN\<rparr>)
   \<and> \<lparr>move_from = \<lparr>row = 6, col = 1\<rparr>, move_to = \<lparr>row = 2, col = 5\<rparr>,
     captured = [\<lparr>row = 5, col = 2\<rparr>, \<lparr>row = 3, col = 4\<rparr>]\<rparr>
     \<in> set (findPieceCaptureMovesRecursive double_jump_board \<lparr>row = 6, col = 1\<rparr>
               \<lparr>player = WHITE, ptype = MAN\<rparr> [])"
proof -
  let ?m = "\<lparr>move_from = \<lparr>row = 6, col = 1\<rparr>, move_to = \<lparr>row = 2, col = 5\<rparr>,
     captured = [\<lparr>row = 5, col = 2\<rparr>, \<lparr>row = 3, col = 4\<rparr>]\<rparr>"
  have h1: "?m \<in> set (findPieceCaptureMoves double_jump_board \<lparr>row = 6, col = 1\<rparr>
                        \<lparr>player = WHITE, ptype = MAN\<rparr>)"
    by (simp add: double_jump_board_def board_of_def) code_simp
  have h2: "?m \<in> set (findPieceCaptureMovesRecursive double_jump_board \<lparr>row = 6, col = 1\<rparr>
                        \<lparr>player = WHITE, ptype = MAN\<rparr> [])"
    by (simp add: double_jump_board_def board_of_def) code_simp
  show ?thesis using longest_chain_per_piece [OF h1 h2] h1 by simp
qed

text \<open>
  C3 (legal moves are sound). Every move of a side's legal set starts on a square
  holding a piece of that side, ends on the board, and its captured list names
  distinct squares each holding a piece of the opponent before the move.
\<close>

theorem legal_move_sound:
  assumes "m \<in> set (getAllPlayerMoves b p)"
  shows "\<exists>pc. at b (move_from m) = Some pc \<and> player pc = p
           \<and> is_within_board (row (move_to m)) (col (move_to m))
           \<and> distinct (captured m)
           \<and> (\<forall>q \<in> set (captured m). \<exists>e. at b q = Some e \<and> player e = get_opponent p)"
proof (cases "allCaptureChains b p = []")
  case True
  with assms have "m \<in> set (findStandardMoves b p)" by (simp add: getAllPlayerMoves_quiet)
  then show ?thesis using findStandardMoves_sound by fastforce
next
  case False
  with assms have "m \<in> set (findCaptureMoves b p)" by (simp add: getAllPlayerMoves_captures)
  then obtain pc where "at b (move_from m) = Some pc" "player pc = p"
    "valid_chain b (move_from m) pc [] m"
    using findCaptureMoves_valid by blast
  then show ?thesis
    by (auto simp: valid_chain_Nil sq_has_def is_enemy_of_def split: option.splits)
qed

theorem legal_move_sound_witness:
  "\<lparr>move_from = \<lparr>row = 5, col = 2\<rparr>, move_to = \<lparr>row = 3, col = 4\<rparr>,
     captured = [\<lparr>row = 4, col = 3\<rparr>]\<rparr> \<in> set (getAllPlayerMoves single_capture_board WHITE)
   \<and> (\<exists>e. at single_capture_board \<lparr>row = 4, col = 3\<rparr> = Some e \<and> player e = BLACK)"
proof -
  have h: "\<lparr>move_from = \<lparr>row = 5, col = 2\<rparr>, move_to = \<lparr>row = 3, col = 4\<rparr>,
     captured = [\<lparr>row = 4, col = 3\<rparr>]\<rparr> \<in> set (getAllPlayerMoves single_capture_board WHITE)"
    by (simp add: single_capture_board_def board_of_def) code_simp
  have "\<exists>e. at single_capture_board \<lparr>row = 4, col = 3\<rparr> = Some e \<and> player e = BLACK"
    using legal_move_sound [OF h] by auto
  with h show ?thesis by simp
qed

text \<open>
  C4 (chain length bound). A capture chain found by the recursive search captures at
  least one piece and never more pieces than the opponent has on the board: the
  recursion removes one enemy piece per level, which is also why it terminates.
\<close>

theorem capture_chain_bound:
  assumes "m \<in> set (findPieceCaptureMovesRecursive b frm pc [])"
  shows "0 < length (captured m) \<and> length (captured m) \<le> count_sq (is_enemy_of pc) b"
  using chain_valid(1) [OF assms] by (simp add: valid_chain_Nil)

theorem capture_chain_bound_witness:
  "\<lparr>move_from = \<lparr>row = 6, col = 1\<rparr>, move_to = \<lparr>row = 2, col = 5\<rparr>,
     captured = [\<lparr>row = 5, col = 2\<rparr>, \<lparr>row = 3, col = 4\<rparr>]\<rparr>
     \<in> set (findPieceCaptureMovesRecursive double_jump_board \<lparr>row = 6, col = 1\<rparr>
               \<lparr>player = WHITE, ptype = MAN\<rparr> [])
   \<and> 2 \<le> count_sq (is_enemy_of \<lparr>player = WHITE, ptype = MAN\<rparr>) double_jump_board"
proof -
  have h: "\<lparr>move_from = \<lparr>row = 6, col = 1\<rparr>, move_to = \<lparr>row = 2, col = 5\<rparr>,
     captured = [\<lparr>row = 5, col = 2\<rparr>, \<lparr>row = 3, col = 4\<rparr>]\<rparr>
     \<in> set (findPieceCaptureMovesRecursive double_jump_board \<lparr>row = 6, col = 1\<rparr>
               \<lparr>player = WHITE, ptype = MAN\<rparr> [])"
    by (simp add: double_jump_board_def board_of_def) code_simp
  show ?thesis using capture_chain_bound [OF h] h by simp
qed

text \<open>
  C5 (per-square query). On an 8\<times>8 board, the moves \<open>getValidMoves\<close> offers for an
  occupied square are exactly the moves of the owner's legal set that start there, in
  the same order: captures elsewhere leave a non-capturing piece with no move.
\<close>

theorem getValidMoves_is_filter:
  assumes "wf_board b" and "at b frm = Some pc"
  shows "getValidMoves b frm = filter (\<lambda>m. move_from m = frm) (getAllPlayerMoves b (player pc))"
proof (cases "findCaptureMoves b (player pc) = []")
  case True
  then have "getAllPlayerMoves b (player pc) = findStandardMoves b (player pc)"
    by (simp add: getAllPlayerMoves_def)
  with True assms show ?thesis
    by (simp add: getValidMoves_def findStandardMoves_def filter_from_scan_stepMoves)
next
  case False
  have "filter (\<lambda>m. row (move_from m) = row frm \<and> col (move_from m) = col frm) xs
        = filter (\<lambda>m. move_from m = frm) xs" for xs
    by (rule filter_cong) (auto intro: position_eqI)
  with False assms show ?thesis
    by (simp add: getValidMoves_def getAllPlayerMoves_def)
qed

theorem getValidMoves_is_filter_witness:
  "wf_board single_capture_board
   \<and> at single_capture_board \<lparr>row = 6, col = 5\<rparr> = Some \<lparr>player = WHITE, ptype = MAN\<rparr>
   \<and> getValidMoves single_capture_board \<lparr>row = 6, col = 5\<rparr> = []"
proof -
  have h1: "wf_board single_capture_board"
    by (simp add: single_capture_board_def board_of_def wf_board_def) code_simp
  have h2: "at single_capture_board \<lparr>row = 6, col = 5\<rparr> = Some \<lparr>player = WHITE, ptype = MAN\<rparr>"
    by (simp add: single_capture_board_def board_of_def) code_simp
  have h3: "filter (\<lambda>m. move_from m = \<lparr>row = 6, col = 5\<rparr>)
              (getAllPlayerMoves single_capture_board WHITE) = []"
    by (simp add: single_capture_board_def board_of_def) code_simp
  show ?thesis using getValidMoves_is_filter [OF h1 h2] h1 h2 h3 by simp
qed

text \<open>
  C6 (quiet moves). When no piece of the side has a capture, every legal move is a
  single diagonal step of a piece of the side, in one of the directions its rank
  allows, onto an empty square of the board, capturing nothing.
\<close>

theorem quiet_moves_are_steps:
  assumes "allCaptureChains b p = []" and "m \<in> set (getAllPlayerMoves b p)"
  shows "\<exists>pc. at b (move_from m) = Some pc \<and> player pc = p \<and> captured m = []
           \<and> is_within_board (row (move_to m)) (col (move_to m)) \<and> at b (move_to m) = None
           \<and> (row (move_to m) - row (move_from m), col (move_to m) - col (move_from m))
               \<in> set (directions pc)"
  using assms findStandardMoves_sound by (simp add: getAllPlayerMoves_quiet)

theorem quiet_moves_are_steps_witness:
  "allCaptureChains createInitialBoard WHITE = []
   \<and> \<lparr>move_from = \<lparr>row = 5, col = 0\<rparr>, move_to = \<lparr>row = 4, col = 1\<rparr>, captured = []\<rparr>
       \<in> set (getAllPlayerMoves createInitialBoard WHITE)"
proof -
  have h1: "allCaptureChains createInitialBoard WHITE = []"
    by code_simp
  have h2: "\<lparr>move_from = \<lparr>row = 5, col = 0\<rparr>, move_to = \<lparr>row = 4, col = 1\<rparr>, captured = []\<rparr>
       \<in> set (getAllPlayerMoves createInitialBoard WHITE)"
    by code_simp
  have "at createInitialBoard \<lparr>row = 4, col = 1\<rparr> = None"
    using quiet_moves_are_steps [OF h1 h2] by auto
  with h1 h2 show ?thesis by simp
qed

end
