(* ===== verification/ApplyMove.thy ===== *)
theory ApplyMove
  imports MoveGen
begin

text \<open>
  \<open>applyMove\<close> of \<open>src/src/game/logic.ts\<close>: the piece on \<open>from\<close> is written to
  \<open>to\<close>, \<open>from\<close> is cleared, then every in-board square of \<open>captured\<close> is
  cleared (\<open>clear_captured\<close>, the source's \<open>for\<close> loop), and a man that ends on its
  promotion row (row 0 for white, row 7 for black) is made a king if a piece is still
  on \<open>to\<close>. A move whose \<open>from\<close> holds no piece returns the board unchanged with
  \<open>promoted = false\<close>. The source deep-copies the board (\<open>JSON.parse(JSON.stringify)\<close>)
  before writing; in HOL every board is a value, so the input board is never changed.
  The source's guard \<open>!move || !move.from || !move.to\<close> cannot fail on a typed move.
\<close>

section \<open>Definitions\<close>

definition clear_captured :: "position list \<Rightarrow> board \<Rightarrow> board" where
  "clear_captured ps b =
     fold (\<lambda>p bd. if is_within_board (row p) (col p) then put bd p None else bd) ps b"

definition promotes :: "piece \<Rightarrow> position \<Rightarrow> bool" where
  "promotes pc t \<longleftrightarrow>
     ptype pc = MAN \<and> ((player pc = WHITE \<and> row t = 0) \<or> (player pc = BLACK \<and> row t = BOARD_SIZE - 1))"

definition applyMove :: "board \<Rightarrow> move \<Rightarrow> apply_move_result" where
  "applyMove b m =
     (case at b (move_from m) of
        None \<Rightarrow> \<lparr>newBoard = b, promoted = False\<rparr>
      | Some pc \<Rightarrow>
          (let nb = clear_captured (captured m)
                      (put (put b (move_to m) (Some pc)) (move_from m) None)
           in if promotes pc (move_to m)
              then (case at nb (move_to m) of
                      Some q \<Rightarrow> \<lparr>newBoard = put nb (move_to m) (Some (q\<lparr>ptype := KING\<rparr>)),
                                  promoted = True\<rparr>
                    | None \<Rightarrow> \<lparr>newBoard = nb, promoted = False\<rparr>)
              else \<lparr>newBoard = nb, promoted = False\<rparr>))"

text \<open>A king whose capture chain returns to its start square (a diamond of four men).\<close>

definition cyclic_capture_board :: board where
  "cyclic_capture_board =
     board_of [((4, 3), \<lparr>player = WHITE, ptype = KING\<rparr>),
               ((3, 2), \<lparr>player = BLACK, ptype = MAN\<rparr>), ((1, 2), \<lparr>player = BLACK, ptype = MAN\<rparr>),
               ((1, 4), \<lparr>player = BLACK, ptype = MAN\<rparr>), ((3, 4), \<lparr>player = BLACK, ptype = MAN\<rparr>)]"

text \<open>A white man one step from its promotion row.\<close>

definition promotion_board :: board where
  "promotion_board = board_of [((1, 2), \<lparr>player = WHITE, ptype = MAN\<rparr>)]"

section \<open>Board reads after the writes\<close>

lemma get_sq_clear_captured [board_simps]:
  "get_sq (clear_captured ps b) r c =
     (if list_ex (\<lambda>p. row p = r \<and> col p = c \<and> is_within_board r c) ps then None else get_sq b r c)"
proof (induction ps arbitrary: b)
  case Nil
  then show ?case by (simp add: clear_captured_def)
next
  case (Cons p ps)
  have "clear_captured (p # ps) b =
        clear_captured ps (if is_within_board (row p) (col p) then put b p None else b)"
    by (simp add: clear_captured_def)
  then show ?case
    using Cons.IH by (auto simp: get_sq_set_sq get_sq_not_cell)
qed

lemma cell_clear_captured [simp]: "cell (clear_captured ps b) r c = cell b r c"
  by (induction ps arbitrary: b) (simp_all add: clear_captured_def)

lemma wf_board_clear_captured [simp]: "wf_board b \<Longrightarrow> wf_board (clear_captured ps b)"
  by (induction ps arbitrary: b) (simp_all add: clear_captured_def)

lemma applyMove_cases:
  assumes "at b (move_from m) = Some pc"
  obtains nb where "nb = clear_captured (captured m) (put (put b (move_to m) (Some pc)) (move_from m) None)"
    and "applyMove b m =
           (if promotes pc (move_to m) \<and> at nb (move_to m) \<noteq> None
            then \<lparr>newBoard = put nb (move_to m) (Some (pc\<lparr>ptype := KING\<rparr>)), promoted = True\<rparr>
            else \<lparr>newBoard = nb, promoted = False\<rparr>)"
proof -
  let ?nb = "clear_captured (captured m) (put (put b (move_to m) (Some pc)) (move_from m) None)"
  have q: "at ?nb (move_to m) = Some q \<Longrightarrow> q = pc" for q
    by (auto simp: board_simps get_sq_not_cell split: if_splits)
  show ?thesis
    by (rule that [OF refl])
       (auto simp: applyMove_def assms Let_def dest: q split: option.splits)
qed


text \<open>Every square of the board \<open>applyMove\<close> returns, read back.\<close>

lemma applyMove_get_sq:
  assumes pc: "at b (move_from m) = Some pc"
  shows "get_sq (newBoard (applyMove b m)) r c =
     (if list_ex (\<lambda>p. row p = r \<and> col p = c \<and> is_within_board r c) (captured m) then None
      else if r = row (move_from m) \<and> c = col (move_from m) then None
      else if r = row (move_to m) \<and> c = col (move_to m) \<and> cell b r c
      then Some (if promotes pc (move_to m) then pc\<lparr>ptype := KING\<rparr> else pc)
      else get_sq b r c)"
proof -
  have cf: "cell b (row (move_from m)) (col (move_from m))"
    using pc by (auto simp: get_sq_def split: if_splits)
  from pc obtain nb where nb: "nb = clear_captured (captured m)
      (put (put b (move_to m) (Some pc)) (move_from m) None)"
    and eq: "applyMove b m =
           (if promotes pc (move_to m) \<and> at nb (move_to m) \<noteq> None
            then \<lparr>newBoard = put nb (move_to m) (Some (pc\<lparr>ptype := KING\<rparr>)), promoted = True\<rparr>
            else \<lparr>newBoard = nb, promoted = False\<rparr>)"
    by (rule applyMove_cases)
  show ?thesis
    using cf unfolding eq nb
    by (auto simp: board_simps get_sq_not_cell)
qed

lemma applyMove_promoted:
  assumes "at b (move_from m) = Some pc"
  shows "promoted (applyMove b m) \<longleftrightarrow>
     promotes pc (move_to m) \<and> cell b (row (move_to m)) (col (move_to m))
     \<and> move_to m \<noteq> move_from m
     \<and> \<not> list_ex (\<lambda>p. p = move_to m \<and> is_within_board (row p) (col p)) (captured m)"
proof -
  from assms obtain nb where nb: "nb = clear_captured (captured m)
      (put (put b (move_to m) (Some pc)) (move_from m) None)"
    and eq: "applyMove b m =
           (if promotes pc (move_to m) \<and> at nb (move_to m) \<noteq> None
            then \<lparr>newBoard = put nb (move_to m) (Some (pc\<lparr>ptype := KING\<rparr>)), promoted = True\<rparr>
            else \<lparr>newBoard = nb, promoted = False\<rparr>)"
    by (rule applyMove_cases)
  have "list_ex (\<lambda>p. p = move_to m \<and> is_within_board (row p) (col p)) (captured m) \<longleftrightarrow>
        list_ex (\<lambda>p. row p = row (move_to m) \<and> col p = col (move_to m)
                  \<and> is_within_board (row (move_to m)) (col (move_to m))) (captured m)"
    by (auto simp: list_ex_iff) (metis position_eqI)
  moreover have "move_to m = move_from m \<longleftrightarrow>
        row (move_to m) = row (move_from m) \<and> col (move_to m) = col (move_from m)"
    by (auto intro: position_eqI)
  ultimately show ?thesis
    unfolding eq nb by (auto simp: board_simps get_sq_not_cell)
qed


section \<open>Properties of applyMove\<close>

text \<open>
  C7 (functional behaviour of applyMove). For a move whose origin holds a piece, every
  square of the result is: empty if it is an in-board captured square or the origin,
  otherwise the mover (made a king exactly when it is a man reaching its promotion row)
  if it is the destination, otherwise unchanged; and the promotion flag is set exactly
  when a promoting man is still on an existing destination square that is neither the
  origin nor captured.
\<close>

theorem applyMove_functional:
  assumes "at b (move_from m) = Some pc"
  shows "get_sq (newBoard (applyMove b m)) r c =
     (if list_ex (\<lambda>p. row p = r \<and> col p = c \<and> is_within_board r c) (captured m) then None
      else if r = row (move_from m) \<and> c = col (move_from m) then None
      else if r = row (move_to m) \<and> c = col (move_to m) \<and> cell b r c
      then Some (if promotes pc (move_to m) then pc\<lparr>ptype := KING\<rparr> else pc)
      else get_sq b r c)
   \<and> (promoted (applyMove b m) \<longleftrightarrow>
        promotes pc (move_to m) \<and> cell b (row (move_to m)) (col (move_to m))
        \<and> move_to m \<noteq> move_from m
        \<and> \<not> list_ex (\<lambda>p. p = move_to m \<and> is_within_board (row p) (col p)) (captured m))"
  using applyMove_get_sq [OF assms] applyMove_promoted [OF assms] by blast

theorem applyMove_functional_witness:
  "at single_capture_board \<lparr>row = 5, col = 2\<rparr> = Some \<lparr>player = WHITE, ptype = MAN\<rparr>
   \<and> get_sq (newBoard (applyMove single_capture_board
        \<lparr>move_from = \<lparr>row = 5, col = 2\<rparr>, move_to = \<lparr>row = 3, col = 4\<rparr>,
          captured = [\<lparr>row = 4, col = 3\<rparr>]\<rparr>)) 4 3 = None"
proof -
  define mv where "mv = \<lparr>move_from = \<lparr>row = 5, col = 2\<rparr>, move_to = \<lparr>row = 3, col = 4\<rparr>,
          captured = [\<lparr>row = 4, col = 3\<rparr>]\<rparr>"
  have h: "at single_capture_board (move_from mv) = Some \<lparr>player = WHITE, ptype = MAN\<rparr>"
    by (simp add: mv_def single_capture_board_def board_of_def) code_simp
  have "get_sq (newBoard (applyMove single_capture_board mv)) 4 3 = None"
    using applyMove_functional [OF h, of 4 3] by (simp add: mv_def is_within_board_def)
  with h show ?thesis by (simp add: mv_def)
qed

text \<open>
  C8 (promotion). On an 8\<times>8 board, a man that moves to its promotion row (row 0 for
  white, row 7 for black), onto an in-board square that is neither its origin nor
  captured, becomes a king there and the move reports \<open>promoted\<close>.
\<close>

theorem promotion_to_king:
  assumes "wf_board b" and "at b (move_from m) = Some pc" and "ptype pc = MAN"
    and "row (move_to m) = (if player pc = WHITE then 0 else 7)"
    and "is_within_board (row (move_to m)) (col (move_to m))"
    and "move_to m \<noteq> move_from m" and "move_to m \<notin> set (captured m)"
  shows "at (newBoard (applyMove b m)) (move_to m) = Some (pc\<lparr>ptype := KING\<rparr>)
         \<and> promoted (applyMove b m)"
proof -
  have pr: "promotes pc (move_to m)"
    using assms(3,4) by (cases "player pc") (simp_all add: promotes_def)
  have cl: "cell b (row (move_to m)) (col (move_to m))"
    using assms(1,5) by (simp add: cell_wf_board)
  have ne: "\<not> (row (move_to m) = row (move_from m) \<and> col (move_to m) = col (move_from m))"
    using assms(6) position_eqI by blast
  have nc: "\<not> list_ex (\<lambda>p. row p = row (move_to m) \<and> col p = col (move_to m)
              \<and> is_within_board (row (move_to m)) (col (move_to m))) (captured m)"
    using assms(7) by (auto simp: list_ex_iff dest: position_eqI)
  have nc': "\<not> list_ex (\<lambda>p. p = move_to m \<and> is_within_board (row p) (col p)) (captured m)"
    using assms(7) by (auto simp: list_ex_iff)
  show ?thesis
    using applyMove_get_sq [OF assms(2), of "row (move_to m)" "col (move_to m)"]
      applyMove_promoted [OF assms(2)] pr cl ne nc nc' assms(6) by simp
qed

theorem promotion_to_king_witness:
  "at (newBoard (applyMove promotion_board
      \<lparr>move_from = \<lparr>row = 1, col = 2\<rparr>, move_to = \<lparr>row = 0, col = 1\<rparr>, captured = []\<rparr>))
      \<lparr>row = 0, col = 1\<rparr> = Some \<lparr>player = WHITE, ptype = KING\<rparr>"
proof -
  define mv where "mv = \<lparr>move_from = \<lparr>row = 1, col = 2\<rparr>, move_to = \<lparr>row = 0, col = 1\<rparr>,
     captured = ([] :: position list)\<rparr>"
  have h1: "wf_board promotion_board"
    by (simp add: promotion_board_def board_of_def wf_board_def) code_simp
  have h2: "at promotion_board (move_from mv) = Some \<lparr>player = WHITE, ptype = MAN\<rparr>"
    by (simp add: mv_def promotion_board_def board_of_def) code_simp
  have "at (newBoard (applyMove promotion_board mv)) (move_to mv)
        = Some (\<lparr>player = WHITE, ptype = MAN\<rparr>\<lparr>ptype := KING\<rparr>)"
    using promotion_to_king [OF h1 h2] by (simp add: mv_def is_within_board_def)
  then show ?thesis by (simp add: mv_def)
qed

text \<open>\<open>applyMove\<close> keeps a board 8 rows of 8 squares.\<close>

lemma wf_board_applyMove [simp]: "wf_board b \<Longrightarrow> wf_board (newBoard (applyMove b m))"
  by (auto simp: applyMove_def Let_def split: option.splits)

end
