(* ===== verification/WinCheck.thy ===== *)
theory WinCheck
  imports ApplyMove
begin

text \<open>
  \<open>checkWinCondition\<close> of \<open>src/src/game/logic.ts\<close>, evaluated for the side about
  to move: if that side has no legal move its opponent wins; otherwise the side to
  move wins if the opponent has no piece (counted by the source's double loop,
  \<open>count_pieces\<close>) or no legal move; otherwise there is no winner (\<open>None\<close>, the
  source's \<open>null\<close>).
\<close>

section \<open>Definitions\<close>

definition count_pieces :: "board \<Rightarrow> player \<Rightarrow> nat" where
  "count_pieces b p =
     length (filter (\<lambda>(r, c). sq_has (\<lambda>q. player q = p) (get_sq b r c)) board_positions)"

definition checkWinCondition :: "board \<Rightarrow> player \<Rightarrow> player option" where
  "checkWinCondition b cp =
     (if getAllPlayerMoves b cp = [] then Some (get_opponent cp)
      else (let opp = get_opponent cp
            in if count_pieces b opp = 0 then Some cp
               else if getAllPlayerMoves b opp = [] then Some cp
               else None))"

text \<open>
  White men and kings filling the two top rows so that none can move: all eight
  white pieces are blocked by each other, and black has no piece at all.
\<close>

definition blocked_white_board :: board where
  "blocked_white_board =
     board_of [((0, 1), \<lparr>player = WHITE, ptype = KING\<rparr>), ((0, 3), \<lparr>player = WHITE, ptype = KING\<rparr>),
               ((0, 5), \<lparr>player = WHITE, ptype = KING\<rparr>), ((0, 7), \<lparr>player = WHITE, ptype = KING\<rparr>),
               ((1, 0), \<lparr>player = WHITE, ptype = MAN\<rparr>), ((1, 2), \<lparr>player = WHITE, ptype = MAN\<rparr>),
               ((1, 4), \<lparr>player = WHITE, ptype = MAN\<rparr>), ((1, 6), \<lparr>player = WHITE, ptype = MAN\<rparr>)]"

text \<open>A black man on (2, 1) hemmed in by white men on (3, 0), (3, 2) and (4, 3).\<close>

definition immobilized_black_board :: board where
  "immobilized_black_board =
     board_of [((2, 1), \<lparr>player = BLACK, ptype = MAN\<rparr>), ((3, 0), \<lparr>player = WHITE, ptype = MAN\<rparr>),
               ((3, 2), \<lparr>player = WHITE, ptype = MAN\<rparr>), ((4, 3), \<lparr>player = WHITE, ptype = MAN\<rparr>)]"

section \<open>A side without pieces cannot move\<close>

lemma count_pieces_zero:
  "count_pieces b p = 0 \<Longrightarrow> is_within_board r c \<Longrightarrow> get_sq b r c = Some q \<Longrightarrow> player q \<noteq> p"
proof
  assume "count_pieces b p = 0" "is_within_board r c" "get_sq b r c = Some q" "player q = p"
  then have "(r, c) \<in> set (filter (\<lambda>(r, c). sq_has (\<lambda>q. player q = p) (get_sq b r c)) board_positions)"
    by (simp add: set_board_positions is_within_board_def sq_has_def)
  with \<open>count_pieces b p = 0\<close> show False by (simp add: count_pieces_def)
qed

lemma scan_pieces_no_pieces: "count_pieces b p = 0 \<Longrightarrow> scan_pieces b p f = []"
  by (auto simp: scan_pieces_empty_iff dest: count_pieces_zero)

lemma no_pieces_no_moves: "count_pieces b p = 0 \<Longrightarrow> getAllPlayerMoves b p = []"
  by (simp add: getAllPlayerMoves_def findCaptureMoves_def findStandardMoves_def
                scan_pieces_no_pieces Let_def)

section \<open>Properties of the terminal-state evaluator\<close>

text \<open>
  C10 (the evaluator is sound). \<open>checkWinCondition\<close> reports no winner exactly when
  both sides have a legal move, and whenever it names a winner, the winner's opponent
  has no legal move (it is immobilised or has no piece left).
\<close>

theorem checkWinCondition_sound:
  "(checkWinCondition b cp = None \<longleftrightarrow>
      getAllPlayerMoves b cp \<noteq> [] \<and> getAllPlayerMoves b (get_opponent cp) \<noteq> [])
   \<and> (checkWinCondition b cp = Some w \<longrightarrow> getAllPlayerMoves b (get_opponent w) = [])"
  using no_pieces_no_moves [of b "get_opponent cp"]
  by (auto simp: checkWinCondition_def Let_def)

theorem checkWinCondition_sound_witness:
  "checkWinCondition immobilized_black_board WHITE = Some WHITE
   \<and> getAllPlayerMoves immobilized_black_board BLACK = []
   \<and> checkWinCondition createInitialBoard WHITE = None"
proof -
  have h1: "checkWinCondition immobilized_black_board WHITE = Some WHITE"
    by (simp add: immobilized_black_board_def board_of_def) code_simp
  have h2: "getAllPlayerMoves createInitialBoard WHITE \<noteq> []
            \<and> getAllPlayerMoves createInitialBoard BLACK \<noteq> []"
    by code_simp
  show ?thesis
    using checkWinCondition_sound [of immobilized_black_board WHITE WHITE]
      checkWinCondition_sound [of createInitialBoard WHITE WHITE] h1 h2 by simp
qed

text \<open>
  C11 (elimination). If the side to move has no piece, its opponent wins; if the side
  to move can move and its opponent has no piece, the side to move wins.
\<close>

theorem elimination_wins:
  "(count_pieces b cp = 0 \<longrightarrow> checkWinCondition b cp = Some (get_opponent cp))
   \<and> (getAllPlayerMoves b cp \<noteq> [] \<and> count_pieces b (get_opponent cp) = 0
      \<longrightarrow> checkWinCondition b cp = Some cp)"
  using no_pieces_no_moves [of b cp] by (simp add: checkWinCondition_def)

theorem elimination_wins_witness:
  "checkWinCondition (board_of [((5, 2), \<lparr>player = WHITE, ptype = MAN\<rparr>)]) BLACK = Some WHITE
   \<and> checkWinCondition (board_of [((5, 2), \<lparr>player = WHITE, ptype = MAN\<rparr>)]) WHITE = Some WHITE"
proof -
  let ?b = "board_of [((5, 2), \<lparr>player = WHITE, ptype = MAN\<rparr>)]"
  have h1: "count_pieces ?b BLACK = 0"
    by (simp add: board_of_def) code_simp
  have h2: "getAllPlayerMoves ?b WHITE \<noteq> []"
    by (simp add: board_of_def) code_simp
  show ?thesis
    using elimination_wins [of ?b BLACK] elimination_wins [of ?b WHITE] h1 h2 by simp
qed

text \<open>
  Scenario (immobilised side). A side that still has a piece but no legal move loses when
  it is to move, and makes the side to move the winner otherwise; here a black man
  hemmed in by white men.
\<close>

theorem immobilized_win:
  "count_pieces immobilized_black_board BLACK = 1
   \<and> getAllPlayerMoves immobilized_black_board BLACK = []
   \<and> checkWinCondition immobilized_black_board BLACK = Some WHITE
   \<and> checkWinCondition immobilized_black_board WHITE = Some WHITE"
  by (simp add: immobilized_black_board_def board_of_def) code_simp

text \<open>
  Scenario (the terminal check is not symmetric). Against the specification's "a board
  with one side holding zero pieces always reports the other side as winner": when the
  side to move has pieces but none can move and the opponent has no piece at all,
  \<open>checkWinCondition\<close> names the opponent, the side with no piece, as the winner.
\<close>

theorem terminal_symmetry_fails:
  "count_pieces blocked_white_board BLACK = 0
   \<and> count_pieces blocked_white_board WHITE = 8
   \<and> checkWinCondition blocked_white_board WHITE = Some BLACK"
  by (simp add: blocked_white_board_def board_of_def) code_simp

end
