(* ===== verification/Evaluate.thy ===== *)
theory Evaluate
  imports WinCheck Complex_Main
begin

text \<open>
  \<open>evaluateBoard\<close> of \<open>src/src/game/logic.ts\<close>: the heuristic score of a board from
  one player's side, the sum over the pieces of their value, counted positive for the
  player's pieces and negative for the opponent's. A man is worth 100 plus 10 per row
  advanced toward its promotion row; a king 500 plus five times eight minus its
  Manhattan distance to the board centre (3.5, 3.5); a piece on an edge row or column
  15 more. The source computes in JavaScript numbers; the centre distance is a
  multiple of one half, so the model computes in \<open>rat\<close>, exactly, and
  \<open>piece_value_int\<close> is the integer formula the values always equal.
\<close>

section \<open>Definitions\<close>

definition piece_value :: "piece \<Rightarrow> int \<Rightarrow> int \<Rightarrow> rat" where
  "piece_value pc r c =
     (let v0 = (if ptype pc = KING then 500 else 100);
          v1 = (if ptype pc = MAN
                then v0 + of_int (if player pc = WHITE then BOARD_SIZE - 1 - r else r) * 10
                else v0 + (8 - (\<bar>of_int r - 7 / 2\<bar> + \<bar>of_int c - 7 / 2\<bar>)) * 5)
      in if c = 0 \<or> c = BOARD_SIZE - 1 \<or> r = 0 \<or> r = BOARD_SIZE - 1 then v1 + 15 else v1)"

definition evaluateBoard :: "board \<Rightarrow> player \<Rightarrow> rat" where
  "evaluateBoard b p =
     sum_list (map (\<lambda>(r, c). case get_sq b r c of
                               None \<Rightarrow> 0
                             | Some pc \<Rightarrow> piece_value pc r c * (if player pc = p then 1 else -1))
               board_positions)"

text \<open>The same value with the centre distance written over the integers.\<close>

definition piece_value_int :: "piece \<Rightarrow> int \<Rightarrow> int \<Rightarrow> int" where
  "piece_value_int pc r c =
     (if ptype pc = MAN
      then 100 + (if player pc = WHITE then 7 - r else r) * 10
      else 500 + (16 - (\<bar>2 * r - 7\<bar> + \<bar>2 * c - 7\<bar>)) * 5 div 2)
     + (if c = 0 \<or> c = 7 \<or> r = 0 \<or> r = 7 then 15 else 0)"

section \<open>The centre distance is an integer\<close>

lemma half_shift: "(of_int r :: rat) - 7 / 2 = of_int (2 * r - 7) / 2"
  by (simp add: field_simps)

lemma abs_half_odd: "\<bar>(of_int r :: rat) - 7 / 2\<bar> = of_int \<bar>2 * r - 7\<bar> / 2"
  unfolding half_shift abs_divide by simp

lemma even_center_distance: "even (\<bar>2 * r - 7\<bar> + \<bar>2 * c - 7\<bar> :: int)"
  by (simp add: abs_if)

lemma center_term_int:
  "(8 - (\<bar>(of_int r :: rat) - 7 / 2\<bar> + \<bar>of_int c - 7 / 2\<bar>)) * 5
   = of_int ((16 - (\<bar>2 * r - 7\<bar> + \<bar>2 * c - 7\<bar>)) * 5 div 2)"
proof -
  let ?d = "\<bar>2 * r - 7\<bar> + \<bar>2 * c - 7\<bar>"
  obtain k where k: "?d = 2 * k" using even_center_distance [of r c] by (rule evenE)
  have "\<bar>(of_int r :: rat) - 7 / 2\<bar> + \<bar>of_int c - 7 / 2\<bar> = of_int ?d / 2"
    unfolding abs_half_odd of_int_add add_divide_distrib ..
  also have "\<dots> = of_int k" unfolding k by simp
  finally have l: "(8 - (\<bar>(of_int r :: rat) - 7 / 2\<bar> + \<bar>of_int c - 7 / 2\<bar>)) * 5 = of_int ((8 - k) * 5)"
    by simp
  have e: "(16 - ?d) * 5 div 2 = (8 - k) * 5" unfolding k by presburger
  show ?thesis unfolding e by (rule l)
qed

lemma piece_value_int_eq: "piece_value pc r c = of_int (piece_value_int pc r c)"
  unfolding piece_value_def piece_value_int_def Let_def center_term_int
  by (cases "ptype pc"; cases "player pc") simp_all


lemma piece_value_int_bounds:
  "0 \<le> r \<Longrightarrow> r < 8 \<Longrightarrow> 0 \<le> c \<Longrightarrow> c < 8 \<Longrightarrow>
   100 \<le> piece_value_int pc r c \<and> piece_value_int pc r c \<le> 550"
  unfolding piece_value_int_def by (auto simp: abs_if)

lemma piece_value_int_range:
  "0 \<le> r \<Longrightarrow> r < 8 \<Longrightarrow> 0 \<le> c \<Longrightarrow> c < 8 \<Longrightarrow>
   0 \<le> piece_value_int pc r c \<and> piece_value_int pc r c \<le> 550"
  using piece_value_int_bounds [of r c pc] by simp

lemma evaluateBoard_int:
  "evaluateBoard b p = of_int (sum_list (map (\<lambda>(r, c). case get_sq b r c of
        None \<Rightarrow> 0
      | Some pc \<Rightarrow> piece_value_int pc r c * (if player pc = p then 1 else -1)) board_positions))"
  unfolding evaluateBoard_def of_int_sum_list_map
  by (rule arg_cong [where f = sum_list], rule map_cong)
     (auto simp: piece_value_int_eq split: option.splits)

text \<open>
  C14 (perspective antisymmetry). The score of a board from one side is the negation of
  its score from the other side.
\<close>

theorem evaluateBoard_antisym: "evaluateBoard b (get_opponent p) = - evaluateBoard b p"
proof -
  have "(\<lambda>(r, c). case get_sq b r c of None \<Rightarrow> 0
          | Some pc \<Rightarrow> piece_value pc r c * (if player pc = get_opponent p then 1 else -1))
        = (\<lambda>x. - (\<lambda>(r, c). case get_sq b r c of None \<Rightarrow> 0
          | Some pc \<Rightarrow> piece_value pc r c * (if player pc = p then 1 else -1)) x)"
    by (rule ext) (auto split: option.splits prod.splits dest: player_cases_opponent)
  then show ?thesis by (simp add: evaluateBoard_def sum_list_map_uminus)
qed


lemma count_pieces_opponent_le:
  "count_pieces b WHITE \<le> n \<Longrightarrow> count_pieces b BLACK \<le> n \<Longrightarrow>
   count_pieces b p \<le> n \<and> count_pieces b (get_opponent p) \<le> n"
  by (cases p) simp_all

text \<open>
  C15 (integral and bounded). With at most twelve pieces a side (the most a game can
  have), the heuristic score is an integer, although the source computes the king's
  centre distance with halves, and its magnitude is at most 6600: a single piece is
  worth at most 550, so the win scores \<open>\<plusminus>(10000 + depth)\<close> of the search always
  dominate it.
\<close>

theorem evaluateBoard_bound:
  assumes "count_pieces b WHITE \<le> 12" and "count_pieces b BLACK \<le> 12"
  shows "evaluateBoard b p \<in> \<int> \<and> \<bar>evaluateBoard b p\<bar> \<le> 6600"
proof -
  define g where "g = (\<lambda>(r, c). case get_sq b r c of None \<Rightarrow> 0
      | Some pc \<Rightarrow> if player pc = p then piece_value_int pc r c else (0 :: int))"
  define h where "h = (\<lambda>(r, c). case get_sq b r c of None \<Rightarrow> 0
      | Some pc \<Rightarrow> if player pc = p then 0 else piece_value_int pc r c)"
  let ?G = "sum_list (map g board_positions)" and ?H = "sum_list (map h board_positions)"
  have eq: "evaluateBoard b p = of_int (?G - ?H)"
    unfolding evaluateBoard_int sum_list_subtractf [symmetric]
    by (rule arg_cong [where f = "\<lambda>x. of_int (sum_list x)"], rule map_cong)
       (auto simp: g_def h_def split: option.splits)
  have G: "0 \<le> ?G \<and> ?G \<le> 550 * int (count_pieces b p)"
    unfolding count_pieces_def
    by (rule sum_list_bounded_count)
       (auto simp: g_def sq_has_def set_board_positions piece_value_int_range split: option.splits)
  have H: "0 \<le> ?H \<and> ?H \<le> 550 * int (count_pieces b (get_opponent p))"
    unfolding count_pieces_def
    by (rule sum_list_bounded_count)
       (auto simp: h_def sq_has_def set_board_positions piece_value_int_range
             split: option.splits dest: player_cases_opponent)
  have c: "count_pieces b p \<le> 12" "count_pieces b (get_opponent p) \<le> 12"
    using count_pieces_opponent_le [OF assms] by simp_all
  from G H c have "\<bar>?G - ?H\<bar> \<le> 6600" by linarith
  then have "\<bar>(of_int (?G - ?H) :: rat)\<bar> \<le> 6600"
    by (metis of_int_abs of_int_le_numeral_iff)
  with eq show ?thesis by simp
qed

theorem evaluateBoard_bound_witness:
  "evaluateBoard createInitialBoard WHITE \<in> \<int> \<and> \<bar>evaluateBoard createInitialBoard WHITE\<bar> \<le> 6600"
proof -
  have h1: "count_pieces createInitialBoard WHITE \<le> 12" by code_simp
  have h2: "count_pieces createInitialBoard BLACK \<le> 12" by code_simp
  show ?thesis by (rule evaluateBoard_bound [OF h1 h2])
qed

end
