(* ===== verification/Search.thy ===== *)
theory Search
  imports Evaluate
begin

text \<open>
  The AI of \<open>src/src/game/logic.ts\<close>: \<open>minimax\<close> with alpha-beta pruning, the three
  difficulty levels \<open>getEasyMove\<close>, \<open>getMediumMove\<close>, \<open>getHardMove\<close> and the dispatcher
  \<open>getAIMove\<close>. Scores are JavaScript numbers that are either \<open>\<plusminus>Infinity\<close> or exact
  rationals (the evaluator's values and \<open>\<plusminus>(10000 + depth)\<close>), so they are modelled by
  \<open>score\<close>, the rationals with a bottom and a top. \<open>Math.random()\<close> is an explicit
  argument \<open>rnd\<close> in \<open>[0, 1)\<close>. The two \<open>for\<close> loops of \<open>minimax\<close> with their \<open>break\<close> are
  the mutually recursive \<open>max_loop\<close> and \<open>min_loop\<close>; \<open>minimax_value\<close> is plain minimax
  without pruning, the reference the search is proved against.
\<close>

section \<open>Scores\<close>

datatype score = NegInf | Fin rat | PosInf

instantiation score :: linorder
begin

fun less_eq_score :: "score \<Rightarrow> score \<Rightarrow> bool" where
  "less_eq_score NegInf _ = True"
| "less_eq_score (Fin x) NegInf = False"
| "less_eq_score (Fin x) (Fin y) = (x \<le> y)"
| "less_eq_score (Fin x) PosInf = True"
| "less_eq_score PosInf PosInf = True"
| "less_eq_score PosInf _ = False"

definition less_score :: "score \<Rightarrow> score \<Rightarrow> bool" where
  "less_score x y \<longleftrightarrow> x \<le> y \<and> \<not> y \<le> x"

instance
proof
  fix x y z :: score
  show "(x < y) = (x \<le> y \<and> \<not> y \<le> x)" by (simp add: less_score_def)
  show "x \<le> x" by (cases x) simp_all
  show "x \<le> y \<Longrightarrow> y \<le> z \<Longrightarrow> x \<le> z" by (cases x; cases y; cases z) simp_all
  show "x \<le> y \<Longrightarrow> y \<le> x \<Longrightarrow> x = y" by (cases x; cases y) simp_all
  show "x \<le> y \<or> y \<le> x" by (cases x; cases y) auto
qed

end

section \<open>Alpha-beta search\<close>

text \<open>
  \<open>minimax(board, depth, alpha, beta, isMaximizing, aiPlayer)\<close>. The loops carry the
  running \<open>maxEval\<close>/\<open>minEval\<close> and the updated \<open>alpha\<close>/\<open>beta\<close>; \<open>break\<close> returns the
  running value at once. The search terminates because every recursive call of
  \<open>minimax\<close> lowers the depth and every loop iteration shortens the move list.
\<close>

function minimax :: "board \<Rightarrow> nat \<Rightarrow> score \<Rightarrow> score \<Rightarrow> bool \<Rightarrow> player \<Rightarrow> score"
and max_loop :: "board \<Rightarrow> nat \<Rightarrow> move list \<Rightarrow> score \<Rightarrow> score \<Rightarrow> score \<Rightarrow> player \<Rightarrow> score"
and min_loop :: "board \<Rightarrow> nat \<Rightarrow> move list \<Rightarrow> score \<Rightarrow> score \<Rightarrow> score \<Rightarrow> player \<Rightarrow> score"
where
  "minimax b depth alpha beta isMax ai =
     (let cur = (if isMax then ai else get_opponent ai);
          win = checkWinCondition b cur
      in if win = Some ai then Fin (10000 + of_nat depth)
         else if win = Some (get_opponent ai) then Fin (- 10000 - of_nat depth)
         else if depth = 0 then Fin (evaluateBoard b ai)
         else (let ms = getAllPlayerMoves b cur
               in if isMax then max_loop b (depth - 1) ms NegInf alpha beta ai
                  else min_loop b (depth - 1) ms PosInf alpha beta ai))"
| "max_loop b d [] maxEval alpha beta ai = maxEval"
| "max_loop b d (mv # ms) maxEval alpha beta ai =
     (let evaluation = minimax (newBoard (applyMove b mv)) d alpha beta False ai;
          maxEval' = max maxEval evaluation;
          alpha' = max alpha evaluation
      in if beta \<le> alpha' then maxEval' else max_loop b d ms maxEval' alpha' beta ai)"
| "min_loop b d [] minEval alpha beta ai = minEval"
| "min_loop b d (mv # ms) minEval alpha beta ai =
     (let evaluation = minimax (newBoard (applyMove b mv)) d alpha beta True ai;
          minEval' = min minEval evaluation;
          beta' = min beta evaluation
      in if beta' \<le> alpha then minEval' else min_loop b d ms minEval' alpha beta' ai)"
  by pat_completeness auto
termination
  by (relation "measures
    [\<lambda>x. case x of Inl (b, d, _) \<Rightarrow> d | Inr (Inl (b, d, _)) \<Rightarrow> d | Inr (Inr (b, d, _)) \<Rightarrow> d,
     \<lambda>x. case x of Inl _ \<Rightarrow> 0 | Inr (Inl (b, d, ms, _)) \<Rightarrow> Suc (length ms)
                | Inr (Inr (b, d, ms, _)) \<Rightarrow> Suc (length ms)]") auto

section \<open>Plain minimax, the reference\<close>

fun maxs :: "score list \<Rightarrow> score" where
  "maxs [] = NegInf"
| "maxs (x # xs) = max x (maxs xs)"

fun mins :: "score list \<Rightarrow> score" where
  "mins [] = PosInf"
| "mins (x # xs) = min x (mins xs)"

fun minimax_value :: "board \<Rightarrow> nat \<Rightarrow> bool \<Rightarrow> player \<Rightarrow> score" where
  "minimax_value b depth isMax ai =
     (let cur = (if isMax then ai else get_opponent ai);
          win = checkWinCondition b cur
      in if win = Some ai then Fin (10000 + of_nat depth)
         else if win = Some (get_opponent ai) then Fin (- 10000 - of_nat depth)
         else if depth = 0 then Fin (evaluateBoard b ai)
         else (let vs = map (\<lambda>mv. minimax_value (newBoard (applyMove b mv)) (depth - 1) (\<not> isMax) ai)
                            (getAllPlayerMoves b cur)
               in if isMax then maxs vs else mins vs))"

section \<open>Move selection\<close>

text \<open>\<open>Math.floor(Math.random() * n)\<close>, with \<open>rnd\<close> the value of \<open>Math.random()\<close>.\<close>

definition random_index :: "rat \<Rightarrow> nat \<Rightarrow> nat" where
  "random_index rnd n = nat \<lfloor>rnd * of_nat n\<rfloor>"

definition getEasyMove :: "board \<Rightarrow> player \<Rightarrow> rat \<Rightarrow> move option" where
  "getEasyMove b p rnd =
     (let allMoves = getAllPlayerMoves b p
      in if allMoves = [] then None else Some (allMoves ! random_index rnd (length allMoves)))"

definition getMediumMove :: "board \<Rightarrow> player \<Rightarrow> rat \<Rightarrow> move option" where
  "getMediumMove b p rnd =
     (let allMoves = getAllPlayerMoves b p;
          captureMoves = filter (\<lambda>m. captured m \<noteq> []) allMoves
      in if allMoves = [] then None
         else if captureMoves \<noteq> [] then Some (captureMoves ! random_index rnd (length captureMoves))
         else Some (allMoves ! random_index rnd (length allMoves)))"

text \<open>The search depth of \<open>getHardMove\<close>: \<open>pieceCount\<close> counts every occupied square.\<close>

definition hard_depth :: "board \<Rightarrow> nat" where
  "hard_depth b =
     (let pieceCount = count_sq (\<lambda>_. True) b
      in if pieceCount < 10 then AI_DEPTH_HARD_LATE_GAME else AI_DEPTH_HARD)"

text \<open>The root loop of \<open>getHardMove\<close>: a strictly better value replaces the best move.\<close>

fun hard_loop :: "board \<Rightarrow> nat \<Rightarrow> player \<Rightarrow> move list \<Rightarrow> move option \<Rightarrow> score \<Rightarrow> move option" where
  "hard_loop b depth p [] bestMove bestValue = bestMove"
| "hard_loop b depth p (mv # ms) bestMove bestValue =
     (let boardValue = minimax (newBoard (applyMove b mv)) (depth - 1) NegInf PosInf False p
      in if bestValue < boardValue then hard_loop b depth p ms (Some mv) boardValue
         else hard_loop b depth p ms bestMove bestValue)"

definition getHardMove :: "board \<Rightarrow> player \<Rightarrow> move option" where
  "getHardMove b p =
     (let allMoves = getAllPlayerMoves b p
      in if allMoves = [] then None
         else if length allMoves = 1 then Some (allMoves ! 0)
         else hard_loop b (hard_depth b) p allMoves None NegInf)"

definition getAIMove :: "board \<Rightarrow> player \<Rightarrow> difficulty \<Rightarrow> rat \<Rightarrow> move option" where
  "getAIMove b aiPlayer d rnd =
     (case d of
        Easy \<Rightarrow> getEasyMove b aiPlayer rnd
      | Medium \<Rightarrow> getMediumMove b aiPlayer rnd
      | Hard \<Rightarrow> getHardMove b aiPlayer)"

section \<open>Lemmas on scores\<close>

lemma score_bot [simp]: "NegInf \<le> x" and score_top [simp]: "x \<le> PosInf"
  by (cases x; simp)+

lemma score_less [simp]:
  "NegInf < Fin x" "Fin x < PosInf" "NegInf < PosInf" "Fin x < Fin y \<longleftrightarrow> x < y"
  by (auto simp: less_score_def)

lemma maxs_Fin: "xs \<noteq> [] \<Longrightarrow> \<forall>x\<in>set xs. \<exists>q. x = Fin q \<Longrightarrow> \<exists>q. maxs xs = Fin q"
proof (induction xs)
  case Nil
  then show ?case by simp
next
  case (Cons x xs)
  then show ?case by (cases "xs = []") (auto simp: max_def)
qed

lemma mins_Fin: "xs \<noteq> [] \<Longrightarrow> \<forall>x\<in>set xs. \<exists>q. x = Fin q \<Longrightarrow> \<exists>q. mins xs = Fin q"
proof (induction xs)
  case Nil
  then show ?case by simp
next
  case (Cons x xs)
  then show ?case by (cases "xs = []") (auto simp: min_def)
qed

section \<open>Search lemmas\<close>

declare minimax_value.simps [simp del] minimax.simps [simp del]

lemma checkWinCondition_cases:
  "checkWinCondition b cp = None \<or> checkWinCondition b cp = Some cp
   \<or> checkWinCondition b cp = Some (get_opponent cp)"
  by (simp add: checkWinCondition_def Let_def)

lemma checkWinCondition_None_moves:
  "checkWinCondition b cp = None \<Longrightarrow> getAllPlayerMoves b cp \<noteq> []"
  by (auto simp: checkWinCondition_def Let_def split: if_splits)

lemma max_loop_ge: "maxEval \<le> max_loop b d ms maxEval alpha beta ai"
proof (induction ms arbitrary: maxEval alpha)
  case Nil
  then show ?case by simp
next
  case (Cons mv ms)
  then show ?case by (auto simp: Let_def intro: order.trans [OF max.cobounded1])
qed

lemma min_loop_le: "min_loop b d ms minEval alpha beta ai \<le> minEval"
proof (induction ms arbitrary: minEval beta)
  case Nil
  then show ?case by simp
next
  case (Cons mv ms)
  then show ?case by (auto simp: Let_def intro: order.trans [OF _ min.cobounded1])
qed

lemma minimax_fishburn:
  "alpha < beta \<Longrightarrow>
     fishburn alpha beta (minimax_value b depth isMax ai) (minimax b depth alpha beta isMax ai)"
  "maxEval \<le> alpha \<Longrightarrow> alpha < beta \<Longrightarrow>
     fishburn alpha beta
       (max maxEval (maxs (map (\<lambda>mv. minimax_value (newBoard (applyMove b mv)) d False ai) ms)))
       (max_loop b d ms maxEval alpha beta ai)"
  "alpha < beta \<Longrightarrow> beta \<le> minEval \<Longrightarrow>
     fishburn alpha beta
       (min minEval (mins (map (\<lambda>mv. minimax_value (newBoard (applyMove b mv)) d True ai) ms)))
       (min_loop b d ms minEval alpha beta ai)"
proof (induction b depth alpha beta isMax ai and b d ms maxEval alpha beta ai
         and b d ms minEval alpha beta ai rule: minimax_max_loop_min_loop.induct)
  case (1 b depth alpha beta isMax ai)
  show ?case
    using 1 by (subst minimax_value.simps, subst minimax.simps) (auto simp: Let_def fishburn_refl)
next
  case (2 b d maxEval alpha beta ai)
  then show ?case by (simp add: max_absorb1 fishburn_refl)
next
  case (3 b d mv ms maxEval alpha beta ai)
  let ?e = "minimax (newBoard (applyMove b mv)) d alpha beta False ai"
  have fc: "fishburn alpha beta (minimax_value (newBoard (applyMove b mv)) d False ai) ?e"
    using "3.IH"(1) "3.prems"(2) .
  show ?case
  proof (cases "beta \<le> max alpha ?e")
    case True
    then show ?thesis using fishburn_max_cut [OF True "3.prems" fc] by (simp add: Let_def)
  next
    case False
    have IH: "fishburn (max alpha ?e) beta
       (max (max maxEval ?e) (maxs (map (\<lambda>mv. minimax_value (newBoard (applyMove b mv)) d False ai) ms)))
       (max_loop b d ms (max maxEval ?e) (max alpha ?e) beta ai)"
      using "3.IH"(2) [OF refl refl refl False] "3.prems"(1) False by (simp add: not_le max.coboundedI1)
    show ?thesis
      using fishburn_max_step [OF False "3.prems" fc IH max_loop_ge] False by (simp add: Let_def)
  qed
next
  case (4 b d minEval alpha beta ai)
  then show ?case by (simp add: min_absorb1 fishburn_refl)
next
  case (5 b d mv ms minEval alpha beta ai)
  let ?e = "minimax (newBoard (applyMove b mv)) d alpha beta True ai"
  have fc: "fishburn alpha beta (minimax_value (newBoard (applyMove b mv)) d True ai) ?e"
    using "5.IH"(1) "5.prems"(1) .
  show ?case
  proof (cases "min beta ?e \<le> alpha")
    case True
    then show ?thesis using fishburn_min_cut [OF True "5.prems"(2,1) fc] by (simp add: Let_def)
  next
    case False
    have IH: "fishburn alpha (min beta ?e)
       (min (min minEval ?e) (mins (map (\<lambda>mv. minimax_value (newBoard (applyMove b mv)) d True ai) ms)))
       (min_loop b d ms (min minEval ?e) alpha (min beta ?e) ai)"
      using "5.IH"(2) [OF refl refl refl False] "5.prems"(2) False by (simp add: not_le min.coboundedI1)
    show ?thesis
      using fishburn_min_step [OF False "5.prems"(2,1) fc IH min_loop_le] False by (simp add: Let_def)
  qed
qed


lemma minimax_value_Fin: "\<exists>q. minimax_value b depth isMax ai = Fin q"
proof (induction b depth isMax ai rule: minimax_value.induct)
  case (1 b depth isMax ai)
  let ?cur = "if isMax then ai else get_opponent ai"
  show ?case
  proof (cases "checkWinCondition b ?cur = None \<and> depth \<noteq> 0")
    case True
    then have ne: "getAllPlayerMoves b ?cur \<noteq> []" using checkWinCondition_None_moves by blast
    have "\<forall>x\<in>set (map (\<lambda>mv. minimax_value (newBoard (applyMove b mv)) (depth - 1) (\<not> isMax) ai)
                       (getAllPlayerMoves b ?cur)). \<exists>q. x = Fin q"
      using "1.IH" [OF refl refl] True by (auto simp: get_opponent_neq)
    then show ?thesis
      using True ne by (subst minimax_value.simps) (auto simp: Let_def get_opponent_neq intro!: maxs_Fin mins_Fin)
  next
    case False
    then show ?thesis
      using checkWinCondition_cases [of b ?cur]
      by (subst minimax_value.simps) (auto simp: Let_def get_opponent_involutive)
  qed
qed

lemma minimax_full_window: "minimax b depth NegInf PosInf isMax ai = minimax_value b depth isMax ai"
proof -
  obtain q where q: "minimax_value b depth isMax ai = Fin q" using minimax_value_Fin by blast
  have "fishburn NegInf PosInf (minimax_value b depth isMax ai) (minimax b depth NegInf PosInf isMax ai)"
    by (rule minimax_fishburn(1)) simp
  then show ?thesis
    using q by (cases "minimax b depth NegInf PosInf isMax ai") (auto simp: fishburn_def)
qed


lemma hard_loop_find:
  fixes b :: board and depth :: nat and p :: player and V :: "move \<Rightarrow> score"
  defines "V \<equiv> \<lambda>mv. minimax (newBoard (applyMove b mv)) (depth - 1) NegInf PosInf False p"
  shows "hard_loop b depth p ms best bv =
           (if ms = [] \<or> Max (V ` set ms) \<le> bv then best
            else find (\<lambda>mv. V mv = Max (V ` set ms)) ms)"
proof (induction ms arbitrary: best bv)
  case Nil
  then show ?case by simp
next
  case (Cons mv ms)
  have step: "hard_loop b depth p (mv # ms) best bv =
                (if bv < V mv then hard_loop b depth p ms (Some mv) (V mv) else hard_loop b depth p ms best bv)"
    by (simp add: V_def Let_def)
  show ?case
  proof (cases "ms = []")
    case True
    then show ?thesis unfolding step by (auto simp: not_less dest: leD)
  next
    case False
    obtain M where M: "Max (V ` set ms) = M" by blast
    have M': "Max (V ` set (mv # ms)) = max (V mv) M" using False M by (simp add: Max_insert)
    show ?thesis
    proof (cases "bv < V mv")
      case True
      then have nle: "\<not> max (V mv) M \<le> bv" by (simp add: not_le less_max_iff_disj)
      show ?thesis
      proof (cases "M \<le> V mv")
        case True
        then show ?thesis unfolding step Cons.IH M' M using \<open>bv < V mv\<close> False nle
          by (simp add: max_absorb1)
      next
        case lt: False
        then have "max (V mv) M = M" "V mv \<noteq> M" by (auto simp: max_def)
        then show ?thesis unfolding step Cons.IH M' M using \<open>bv < V mv\<close> False lt nle by simp
      qed
    next
      case nb: False
      show ?thesis
      proof (cases "M \<le> bv")
        case True
        then have "max (V mv) M \<le> bv" using nb by (simp add: not_less)
        then show ?thesis unfolding step Cons.IH M' M using nb True by simp
      next
        case gt: False
        then have "max (V mv) M = M" "V mv \<noteq> M" "\<not> M \<le> bv" using nb by (auto simp: max_def not_less)
        then show ?thesis unfolding step Cons.IH M' M using nb False by simp
      qed
    qed
  qed
qed

lemma find_Some_mem: "find P xs = Some x \<Longrightarrow> x \<in> set xs"
  by (auto simp: find_Some_iff)

lemma random_index_less: "0 \<le> rnd \<Longrightarrow> rnd < 1 \<Longrightarrow> 0 < n \<Longrightarrow> random_index rnd n < n"
proof -
  assume "0 \<le> rnd" "rnd < 1" "0 < n"
  then have "rnd * of_nat n < of_nat n" by (simp add: mult_strict_right_mono [of rnd 1 "of_nat n", simplified])
  then have "\<lfloor>rnd * of_nat n\<rfloor> < int n" by (simp add: floor_less_iff)
  moreover have "0 \<le> \<lfloor>rnd * of_nat n\<rfloor>" using \<open>0 \<le> rnd\<close> by simp
  ultimately show ?thesis by (simp add: random_index_def nat_less_iff)
qed

lemma getHardMove_find:
  assumes "2 \<le> length (getAllPlayerMoves b p)"
  shows "getHardMove b p =
           (let ms = getAllPlayerMoves b p;
                V = (\<lambda>mv. minimax_value (newBoard (applyMove b mv)) (hard_depth b - 1) False p)
            in find (\<lambda>mv. V mv = Max (V ` set ms)) ms)"
proof -
  let ?ms = "getAllPlayerMoves b p"
  let ?V = "\<lambda>mv. minimax_value (newBoard (applyMove b mv)) (hard_depth b - 1) False p"
  have ne: "?ms \<noteq> []" using assms by auto
  then obtain mv0 where mv0: "mv0 \<in> set ?ms" by (cases ?ms) auto
  obtain q where q: "?V mv0 = Fin q" using minimax_value_Fin by blast
  have "?V mv0 \<le> Max (?V ` set ?ms)" by (rule Max_ge) (simp_all add: mv0)
  then have "NegInf < Max (?V ` set ?ms)" unfolding q by (rule less_le_trans [OF score_less(1)])
  then have cond: "\<not> (?ms = [] \<or> Max (?V ` set ?ms) \<le> NegInf)" using ne by (blast dest: leD)
  have "getHardMove b p = hard_loop b (hard_depth b) p ?ms None NegInf"
    using assms ne by (simp add: getHardMove_def Let_def)
  also have "\<dots> = find (\<lambda>mv. ?V mv = Max (?V ` set ?ms)) ?ms"
    by (simp only: hard_loop_find minimax_full_window if_not_P [OF cond])
  finally show ?thesis by (simp only: Let_def)
qed

lemma getHardMove_mem:
  "getAllPlayerMoves b p \<noteq> [] \<Longrightarrow> \<exists>mv. getHardMove b p = Some mv \<and> mv \<in> set (getAllPlayerMoves b p)"
proof -
  assume ne: "getAllPlayerMoves b p \<noteq> []"
  let ?ms = "getAllPlayerMoves b p"
  let ?V = "\<lambda>mv. minimax_value (newBoard (applyMove b mv)) (hard_depth b - 1) False p"
  show ?thesis
  proof (cases "length ?ms = 1")
    case True
    then show ?thesis by (cases ?ms) (auto simp: getHardMove_def)
  next
    case False
    moreover have "length ?ms \<noteq> 0" using ne by simp
    ultimately have two: "2 \<le> length ?ms" by linarith
    have "Max (?V ` set ?ms) \<in> ?V ` set ?ms" using ne by (intro Max_in) auto
    then have "find (\<lambda>mv. ?V mv = Max (?V ` set ?ms)) ?ms \<noteq> None"
      by (auto simp: find_None_iff)
    then show ?thesis
      using getHardMove_find [OF two] by (auto simp: Let_def dest: find_Some_mem)
  qed
qed

lemma captured_getAllPlayerMoves:
  "filter (\<lambda>m. captured m \<noteq> []) (getAllPlayerMoves b p)
   = (if findCaptureMoves b p = [] then [] else getAllPlayerMoves b p)"
proof (cases "findCaptureMoves b p = []")
  case True
  have "\<forall>m\<in>set (findStandardMoves b p). captured m = []"
    using findStandardMoves_sound by blast
  then show ?thesis using True by (simp add: getAllPlayerMoves_def filter_empty_conv)
next
  case False
  have "\<forall>m\<in>set (findCaptureMoves b p). captured m \<noteq> []"
    using findCaptureMoves_valid valid_chain_Nil by blast
  then show ?thesis using False by (simp add: getAllPlayerMoves_def)
qed

lemma getAIMove_in_moves:
  assumes "0 \<le> rnd" "rnd < 1"
  shows "getAIMove b p d rnd \<in>
           (if getAllPlayerMoves b p = [] then {None} else Some ` set (getAllPlayerMoves b p))"
proof -
  have easy: "getEasyMove b p rnd \<in>
           (if getAllPlayerMoves b p = [] then {None} else Some ` set (getAllPlayerMoves b p))"
    using random_index_less [OF assms, of "length (getAllPlayerMoves b p)"]
    by (auto simp: getEasyMove_def Let_def)
  have hard: "getHardMove b p \<in>
           (if getAllPlayerMoves b p = [] then {None} else Some ` set (getAllPlayerMoves b p))"
    using getHardMove_mem [of b p] by (auto simp: getHardMove_def)
  have medium: "getMediumMove b p rnd = getEasyMove b p rnd"
    by (simp add: getMediumMove_def getEasyMove_def captured_getAllPlayerMoves Let_def)
  show ?thesis
    using easy hard medium by (cases d) (simp_all add: getAIMove_def)
qed

section \<open>Properties of the search engine\<close>

text \<open>
  C16 (alpha-beta is fail-soft correct). For every window with \<open>alpha < beta\<close>, the
  value returned by the pruned search and the exact minimax value are related by
  Fishburn's condition: a value at or below \<open>alpha\<close> is an upper bound of the exact
  value, a value inside the window is exact, and a value at or above \<open>beta\<close> is a lower
  bound.
\<close>

theorem alphabeta_fail_soft:
  "alpha < beta \<Longrightarrow>
     fishburn alpha beta (minimax_value b depth isMax ai) (minimax b depth alpha beta isMax ai)"
  by (rule minimax_fishburn(1))

theorem alphabeta_fail_soft_witness:
  "NegInf < Fin 0 \<and>
   fishburn NegInf (Fin 0) (minimax_value createInitialBoard 2 True WHITE)
     (minimax createInitialBoard 2 NegInf (Fin 0) True WHITE)"
  using alphabeta_fail_soft [of NegInf "Fin 0" createInitialBoard 2 True WHITE] by simp

text \<open>
  C17 (the hard AI plays the first best move). When the side has a legal move,
  \<open>getHardMove\<close> returns the move at the least index \<open>i\<close> whose exact minimax value
  (the opponent to move, search depth \<open>hard_depth b - 1\<close>) is maximal among all legal
  moves: every earlier move is strictly worse, so ties keep the first move.
\<close>

theorem getHardMove_first_best:
  assumes "getAllPlayerMoves b p \<noteq> []"
  shows "let ms = getAllPlayerMoves b p;
             V = (\<lambda>mv. minimax_value (newBoard (applyMove b mv)) (hard_depth b - 1) False p)
         in \<exists>i<length ms. getHardMove b p = Some (ms ! i)
                \<and> (\<forall>j<length ms. V (ms ! j) \<le> V (ms ! i)) \<and> (\<forall>j<i. V (ms ! j) < V (ms ! i))"
proof (cases "length (getAllPlayerMoves b p) = 1")
  case True
  then show ?thesis using assms by (simp add: getHardMove_def Let_def)
next
  case False
  let ?ms = "getAllPlayerMoves b p"
  let ?V = "\<lambda>mv. minimax_value (newBoard (applyMove b mv)) (hard_depth b - 1) False p"
  have "length ?ms \<noteq> 0" using assms by simp
  with False have two: "2 \<le> length ?ms" by linarith
  have "Max (?V ` set ?ms) \<in> ?V ` set ?ms" using assms by (intro Max_in) auto
  then obtain mv where "find (\<lambda>mv. ?V mv = Max (?V ` set ?ms)) ?ms = Some mv"
    by (cases "find (\<lambda>mv. ?V mv = Max (?V ` set ?ms)) ?ms") (auto simp: find_None_iff)
  then obtain i where i: "i < length ?ms" "?V (?ms ! i) = Max (?V ` set ?ms)" "mv = ?ms ! i"
      and before: "\<forall>j<i. ?V (?ms ! j) \<noteq> Max (?V ` set ?ms)"
    by (auto simp: find_Some_iff)
  have hard: "getHardMove b p = Some (?ms ! i)"
    using getHardMove_find [OF two] \<open>find _ ?ms = Some mv\<close> i(3) by (simp add: Let_def)
  have le: "\<forall>j<length ?ms. ?V (?ms ! j) \<le> ?V (?ms ! i)"
    using i(2) by (auto intro: Max_ge)
  have "\<forall>j<i. ?V (?ms ! j) < ?V (?ms ! i)"
    using le before i by (auto simp: order.strict_iff_order)
  with i(1) hard le show ?thesis by (auto simp: Let_def)
qed

theorem getHardMove_first_best_witness:
  "let ms = getAllPlayerMoves createInitialBoard WHITE;
       V = (\<lambda>mv. minimax_value (newBoard (applyMove createInitialBoard mv))
                  (hard_depth createInitialBoard - 1) False WHITE)
   in \<exists>i<length ms. getHardMove createInitialBoard WHITE = Some (ms ! i)
        \<and> (\<forall>j<length ms. V (ms ! j) \<le> V (ms ! i)) \<and> (\<forall>j<i. V (ms ! j) < V (ms ! i))"
proof -
  have "getAllPlayerMoves createInitialBoard WHITE \<noteq> []" by code_simp
  then show ?thesis by (rule getHardMove_first_best)
qed

text \<open>
  C18 (the AI only plays legal moves, and always finds one). For every difficulty and
  every value of \<open>Math.random()\<close> in \<open>[0, 1)\<close>, \<open>getAIMove\<close> returns no move exactly
  when the side has no legal move, and any move it returns is legal.
\<close>

theorem getAIMove_legal:
  assumes "0 \<le> rnd" "rnd < 1"
  shows "(getAIMove b p d rnd = None \<longleftrightarrow> getAllPlayerMoves b p = [])
         \<and> (\<forall>mv. getAIMove b p d rnd = Some mv \<longrightarrow> mv \<in> set (getAllPlayerMoves b p))"
  using getAIMove_in_moves [OF assms, of b p d] by (auto split: if_splits)

theorem getAIMove_legal_witness:
  "(0 :: rat) \<le> 1 / 2 \<and> (1 / 2 :: rat) < 1 \<and>
   (\<exists>mv. getAIMove createInitialBoard WHITE Medium (1 / 2) = Some mv
         \<and> mv \<in> set (getAllPlayerMoves createInitialBoard WHITE))"
proof -
  have ne: "getAllPlayerMoves createInitialBoard WHITE \<noteq> []" by code_simp
  have "(getAIMove createInitialBoard WHITE Medium (1 / 2) = None
           \<longleftrightarrow> getAllPlayerMoves createInitialBoard WHITE = [])
        \<and> (\<forall>mv. getAIMove createInitialBoard WHITE Medium (1 / 2) = Some mv
               \<longrightarrow> mv \<in> set (getAllPlayerMoves createInitialBoard WHITE))"
    by (rule getAIMove_legal) simp_all
  with ne show ?thesis by (cases "getAIMove createInitialBoard WHITE Medium (1 / 2)") auto
qed

text \<open>
  C19 (medium equals easy). Because capture is mandatory, the legal moves are either all
  captures or all quiet moves, so the capture filter of \<open>getMediumMove\<close> selects
  either every legal move or none: the medium level picks exactly the move the easy
  level picks for the same random draw.
\<close>

theorem getMediumMove_eq_easy: "getMediumMove b p rnd = getEasyMove b p rnd"
  by (simp add: getMediumMove_def getEasyMove_def captured_getAllPlayerMoves Let_def)

end
