(* ===== verification/Suggest.thy ===== *)
theory Suggest
  imports Search
begin

text \<open>
  \<open>getSuggestedMoves\<close> of \<open>src/src/game/logic.ts\<close>, the hint feature: with captures
  available, the capture moves of maximal length; otherwise the legal moves scored by the
  static evaluator one ply ahead, sorted by descending score (\<open>Array.prototype.sort\<close> is
  stable, modelled by \<open>sort_key\<close> on the negated score), and filtered to the best score.
\<close>

section \<open>Definitions\<close>

definition getSuggestedMoves :: "board \<Rightarrow> player \<Rightarrow> move list" where
  "getSuggestedMoves b p =
     (let allMoves = getAllPlayerMoves b p
      in if allMoves = [] then []
         else (let captureMoves = filter (\<lambda>m. captured m \<noteq> []) allMoves
               in if captureMoves \<noteq> []
                  then (let maxCaptures = Max (set (map (\<lambda>m. length (captured m)) captureMoves))
                        in filter (\<lambda>m. length (captured m) = maxCaptures) captureMoves)
                  else (let scoredMoves = map (\<lambda>mv. (mv, evaluateBoard (newBoard (applyMove b mv)) p)) allMoves;
                            sorted = sort_key (\<lambda>sm. - snd sm) scoredMoves;
                            maxScore = snd (hd sorted)
                        in map fst (filter (\<lambda>sm. snd sm = maxScore) sorted))))"

section \<open>Lemmas\<close>

lemma hd_sort_key_min:
  "xs \<noteq> [] \<Longrightarrow> x \<in> set xs \<Longrightarrow> f (hd (sort_key f xs)) \<le> (f x :: 'b :: linorder)"
proof -
  assume ne: "xs \<noteq> []" and x: "x \<in> set xs"
  have s: "sorted (map f (sort_key f xs))" by simp
  have "x \<in> set (sort_key f xs)" using x by simp
  moreover have "sort_key f xs \<noteq> []" using ne by (metis length_sort length_0_conv)
  then obtain y ys where yys: "sort_key f xs = y # ys" by (cases "sort_key f xs") auto
  ultimately show ?thesis using s by auto
qed

lemma map_fst_filter_pairs:
  "map fst (filter (\<lambda>sm. snd sm = k) (map (\<lambda>mv. (mv, V mv)) xs)) = filter (\<lambda>mv. V mv = k) xs"
  by (induction xs) auto

text \<open>The best-scored prefix of the stable sort, read back as a filter of the input.\<close>

lemma filter_sorted_best:
  fixes V :: "'a \<Rightarrow> rat"
  assumes ne: "ms \<noteq> []"
  shows "(let sorted = sort_key (\<lambda>sm. - snd sm) (map (\<lambda>mv. (mv, V mv)) ms);
              maxScore = snd (hd sorted)
          in map fst (filter (\<lambda>sm. snd sm = maxScore) sorted))
         = filter (\<lambda>mv. V mv = Max (V ` set ms)) ms"
proof -
  let ?sc = "map (\<lambda>mv. (mv, V mv)) ms"
  let ?sorted = "sort_key (\<lambda>sm. - snd sm) ?sc"
  let ?M = "snd (hd ?sorted)"
  have sc_ne: "?sc \<noteq> []" using ne by simp
  have "?sorted \<noteq> []" using sc_ne by (metis length_sort length_0_conv)
  then have "hd ?sorted \<in> set ?sorted" by (rule hd_in_set)
  then have "hd ?sorted \<in> set ?sc" by (simp only: set_sort)
  then have Min: "?M \<in> V ` set ms" by auto
  have upper: "V mv \<le> ?M" if mv: "mv \<in> set ms" for mv
  proof -
    have "(mv, V mv) \<in> set ?sc" using mv by simp
    from hd_sort_key_min [OF sc_ne this, of "\<lambda>sm. - snd sm"] show ?thesis by simp
  qed
  have M: "?M = Max (V ` set ms)"
    using Min upper by (intro Max_eqI [symmetric]) auto
  have eqP: "(\<lambda>sm. snd sm = ?M) = (\<lambda>sm. - snd sm = - ?M)" by auto
  have "filter (\<lambda>sm. snd sm = ?M) ?sorted = filter (\<lambda>sm. snd sm = ?M) ?sc"
    unfolding eqP by (rule sort_key_stable)
  then have "map fst (filter (\<lambda>sm. snd sm = ?M) ?sorted) = filter (\<lambda>mv. V mv = ?M) ms"
    by (simp only: map_fst_filter_pairs)
  then show ?thesis unfolding M [symmetric] Let_def .
qed

lemma filter_max_all_equal:
  "xs \<noteq> [] \<Longrightarrow> (\<And>x y. x \<in> set xs \<Longrightarrow> y \<in> set xs \<Longrightarrow> f x = f y) \<Longrightarrow>
   filter (\<lambda>x. f x = Max (set (map f xs))) xs = xs"
proof -
  assume ne: "xs \<noteq> []" and eq: "\<And>x y. x \<in> set xs \<Longrightarrow> y \<in> set xs \<Longrightarrow> f x = f y"
  obtain x0 where x0: "x0 \<in> set xs" using ne by (cases xs) auto
  have M: "Max (set (map f xs)) = f x0"
  proof (rule Max_eqI)
    show "finite (set (map f xs))" by simp
    show "f x0 \<in> set (map f xs)" using x0 by simp
  next
    fix y assume "y \<in> set (map f xs)"
    then obtain x where "x \<in> set xs" "y = f x" by auto
    then show "y \<le> f x0" using eq [OF _ x0] by (metis order_refl)
  qed
  show ?thesis unfolding M by (rule filter_True) (use eq x0 in blast)
qed

lemma findCaptureMoves_same_length:
  "m \<in> set (findCaptureMoves b p) \<Longrightarrow> m' \<in> set (findCaptureMoves b p) \<Longrightarrow>
   length (captured m) = length (captured m')"
  by (auto simp: findCaptureMoves_def keep_longest_def Let_def split: if_splits)

lemma getSuggestedMoves_captures:
  assumes ne: "findCaptureMoves b p \<noteq> []"
  shows "getSuggestedMoves b p = getAllPlayerMoves b p"
proof -
  have ms: "getAllPlayerMoves b p = findCaptureMoves b p"
    using ne by (simp add: getAllPlayerMoves_def)
  have cm: "filter (\<lambda>m. captured m \<noteq> []) (getAllPlayerMoves b p) = getAllPlayerMoves b p"
    using ne by (simp add: captured_getAllPlayerMoves)
  have keep: "filter (\<lambda>m. length (captured m) = Max (set (map (\<lambda>m. length (captured m)) (findCaptureMoves b p))))
                (findCaptureMoves b p) = findCaptureMoves b p"
    by (rule filter_max_all_equal [OF ne]) (rule findCaptureMoves_same_length)
  show ?thesis
    unfolding getSuggestedMoves_def Let_def cm unfolding ms using ne keep by simp
qed

lemma getSuggestedMoves_quiet:
  "findCaptureMoves b p = [] \<Longrightarrow>
   getSuggestedMoves b p =
     filter (\<lambda>mv. evaluateBoard (newBoard (applyMove b mv)) p
                  = Max ((\<lambda>mv. evaluateBoard (newBoard (applyMove b mv)) p) ` set (getAllPlayerMoves b p)))
            (getAllPlayerMoves b p)"
  using filter_sorted_best [of "getAllPlayerMoves b p" "\<lambda>mv. evaluateBoard (newBoard (applyMove b mv)) p"]
  by (cases "getAllPlayerMoves b p = []")
     (simp_all add: getSuggestedMoves_def captured_getAllPlayerMoves Let_def)

section \<open>Properties of the suggestion engine\<close>

text \<open>
  C21 (suggestions are the best moves, in order). The sort-and-filter of
  \<open>getSuggestedMoves\<close> equals a plain filter of the legal moves: with captures available
  it returns every legal move (all legal captures already have the maximal length);
  otherwise it returns, in generation order, exactly the legal moves whose board after
  the move has the maximal heuristic score for the side.
\<close>

theorem getSuggestedMoves_best:
  "getSuggestedMoves b p =
     (let ms = getAllPlayerMoves b p;
          V = (\<lambda>mv. evaluateBoard (newBoard (applyMove b mv)) p)
      in if findCaptureMoves b p \<noteq> [] then ms else filter (\<lambda>mv. V mv = Max (V ` set ms)) ms)"
  using getSuggestedMoves_captures [of b p] getSuggestedMoves_quiet [of b p] by (simp add: Let_def)

end
