(* ===== verification/GameScreen.thy ===== *)
theory GameScreen
  imports Suggest
begin

text \<open>
  The game controller of \<open>src/src/screens/GameScreen.tsx\<close>. The React component's
  \<open>useState\<close> hooks are the fields of the record \<open>game_state\<close>; its props \<open>gameMode\<close> and
  \<open>difficulty\<close> and the browser's \<open>localStorage\<close> are fields as well, the props never
  written. Each handler (\<open>performMove\<close>, \<open>handleSquareClick\<close>, \<open>handleRestart\<close>,
  \<open>handleUndo\<close>, the button callbacks) is a function from state to state, and the
  turn effect (lines 148--188) is \<open>game_effect\<close>. Timers are events: the AI move's
  \<open>setTimeout\<close> is due exactly while the state satisfies the conditions under which the
  last run of the effect scheduled it and none of its dependencies changed
  (\<open>ai_due\<close>); the game-over modal's \<open>setTimeout\<close> has no cleanup, so the pending
  modal timers are counted (\<open>modalTimers\<close>). A run of the screen is a sequence of
  events (\<open>game_event\<close>), applied by \<open>game_step\<close>; the effect may run between any two
  events, which over-approximates React's scheduling. Sounds, animation and rendering
  are not modelled.
\<close>

section \<open>State\<close>

text \<open>
  \<open>gameWinner\<close> is the source's \<open>winner\<close> state (renamed because \<open>winner\<close> is already a
  field of \<open>game_result\<close>); \<open>localStore\<close> is \<open>localStorage\<close> as a map from keys to
  strings.
\<close>

record game_state =
  board :: board
  currentPlayer :: player
  selectedPiece :: "position option"
  validMoves :: "move list"
  gameWinner :: "player option"
  gameResult :: "game_result option"
  showGameOverModal :: bool
  isPaused :: bool
  history :: "board list"
  mandatoryCaptures :: "move list"
  isMuted :: bool
  enableSuggestions :: bool
  showPlayerPaths :: bool
  modalTimers :: nat
  gameMode :: game_mode
  difficulty :: "difficulty option"
  localStore :: "string \<Rightarrow> string option"

definition AI_PLAYER :: player where
  "AI_PLAYER = PLAYER_TWO"

text \<open>\<open>localStorage.getItem(key) === 'true'\<close>; a failing storage reads as \<open>None\<close>.\<close>

definition stored_flag :: "(string \<Rightarrow> string option) \<Rightarrow> string \<Rightarrow> bool" where
  "stored_flag store key = (store key = Some ''true'')"

text \<open>\<open>String(b)\<close> for a boolean.\<close>

definition bool_string :: "bool \<Rightarrow> string" where
  "bool_string v = (if v then ''true'' else ''false'')"

definition initialGameState ::
  "game_mode \<Rightarrow> difficulty option \<Rightarrow> (string \<Rightarrow> string option) \<Rightarrow> game_state" where
  "initialGameState gm diff store =
     \<lparr>board = createInitialBoard, currentPlayer = PLAYER_ONE, selectedPiece = None,
      validMoves = [], gameWinner = None, gameResult = None, showGameOverModal = False,
      isPaused = False, history = [createInitialBoard], mandatoryCaptures = [],
      isMuted = stored_flag store ''dama-muted'',
      enableSuggestions = stored_flag store ''dama-suggestions'',
      showPlayerPaths = stored_flag store ''dama-show-paths'',
      modalTimers = 0, gameMode = gm, difficulty = diff, localStore = store\<rparr>"

text \<open>The three persistence effects (lines 60--79).\<close>

definition persist_prefs :: "game_state \<Rightarrow> game_state" where
  "persist_prefs s =
     s\<lparr>localStore := (localStore s)
         (''dama-muted'' \<mapsto> bool_string (isMuted s),
          ''dama-suggestions'' \<mapsto> bool_string (enableSuggestions s),
          ''dama-show-paths'' \<mapsto> bool_string (showPlayerPaths s))\<rparr>"

section \<open>Derived values\<close>

definition isPlayerTurn :: "game_state \<Rightarrow> bool" where
  "isPlayerTurn s = (if gameMode s = Single then currentPlayer s = PLAYER_ONE else True)"

definition suggestedMoves :: "game_state \<Rightarrow> move list" where
  "suggestedMoves s =
     (if \<not> enableSuggestions s \<or> gameWinner s \<noteq> None \<or> isPaused s \<or> \<not> isPlayerTurn s then []
      else getSuggestedMoves (board s) (currentPlayer s))"

definition playerPaths :: "game_state \<Rightarrow> move list" where
  "playerPaths s =
     (if \<not> showPlayerPaths s \<or> gameWinner s \<noteq> None \<or> isPaused s \<or> \<not> isPlayerTurn s then []
      else getAllPlayerMoves (board s) (currentPlayer s))"

text \<open>
  \<open>calculateScore\<close>: the double \<open>forEach\<close> counts the winner's pieces and kings, which is
  \<open>count_sq\<close>.
\<close>

definition calculateScore :: "player \<Rightarrow> nat \<Rightarrow> board \<Rightarrow> int" where
  "calculateScore winPlayer movesCount currentBoard =
     (let pieceCount = count_sq (\<lambda>q. player q = winPlayer) currentBoard;
          kingCount = count_sq (\<lambda>q. player q = winPlayer \<and> ptype q = KING) currentBoard;
          baseScore = int pieceCount * 100 + int kingCount * 200;
          penalty = int movesCount * 5
      in max 0 (baseScore - penalty + 1000))"

text \<open>\<open>Math.floor((history.length - 1) / 2)\<close>, shown as the move counter.\<close>

definition movesCount :: "game_state \<Rightarrow> nat" where
  "movesCount s = (length (history s) - 1) div 2"

definition canUndo :: "game_state \<Rightarrow> bool" where
  "canUndo s = (1 < length (history s) \<and> gameWinner s = None)"

definition getTurnIndicator :: "game_state \<Rightarrow> string" where
  "getTurnIndicator s =
     (if gameWinner s \<noteq> None then ''Game Over''
      else if isPaused s then ''Paused''
      else if gameMode s = Single
           then (if currentPlayer s = PLAYER_ONE then ''Your Turn'' else ''AI Thinking...'')
           else (if currentPlayer s = PLAYER_ONE then ''White'' else ''Black'') @ CHR 0x27 # ''s Turn'')"

section \<open>Handlers\<close>

text \<open>
  \<open>performMove\<close>: apply the move, append the new board to the history, and either keep
  the turn for a continued capture from the landing square or pass it.
\<close>

definition chainedCaptures :: "board \<Rightarrow> player \<Rightarrow> move \<Rightarrow> move list" where
  "chainedCaptures nb p mv =
     filter (\<lambda>m. row (move_from m) = row (move_to mv) \<and> col (move_from m) = col (move_to mv))
       (findCaptureMoves nb p)"

definition performMove :: "game_state \<Rightarrow> move \<Rightarrow> game_state" where
  "performMove s mv =
     (let nb = newBoard (applyMove (board s) mv);
          nextPlayer = (if currentPlayer s = PLAYER_ONE then PLAYER_TWO else PLAYER_ONE);
          chained = chainedCaptures nb (currentPlayer s) mv
      in if captured mv \<noteq> [] \<and> chained \<noteq> []
         then s\<lparr>board := nb, history := history s @ [nb], selectedPiece := Some (move_to mv),
                validMoves := chained, mandatoryCaptures := chained\<rparr>
         else s\<lparr>board := nb, history := history s @ [nb], currentPlayer := nextPlayer,
                selectedPiece := None, validMoves := []\<rparr>)"

text \<open>The \<open>winnerName\<close> field of the game result.\<close>

definition winner_label :: "game_mode \<Rightarrow> player \<Rightarrow> string" where
  "winner_label gm w =
     (if gm = Single then (if w = PLAYER_ONE then ''Player'' else ''CPU'')
      else (if w = PLAYER_ONE then ''White'' else ''Black''))"

text \<open>
  The turn effect: record a winner with the game result and start the modal timer, or
  publish the mandatory captures of the side to move.
\<close>

definition game_effect :: "game_state \<Rightarrow> game_state" where
  "game_effect s =
     (if gameWinner s \<noteq> None \<or> isPaused s then s
      else (case checkWinCondition (board s) (currentPlayer s) of
              Some w \<Rightarrow>
                (let mc = (length (history s) - 1) div 2
                 in s\<lparr>gameWinner := Some w,
                      gameResult := Some \<lparr>winner = w, winnerName = winner_label (gameMode s) w,
                                          score = calculateScore w mc (board s), moves = mc,
                                          mode = gameMode s\<rparr>,
                      modalTimers := Suc (modalTimers s)\<rparr>)
            | None \<Rightarrow> s\<lparr>mandatoryCaptures := findCaptureMoves (board s) (currentPlayer s)\<rparr>))"

text \<open>The AI timer is pending exactly when the effect's last run scheduled it.\<close>

definition ai_due :: "game_state \<Rightarrow> bool" where
  "ai_due s \<longleftrightarrow>
     gameWinner s = None \<and> \<not> isPaused s \<and> checkWinCondition (board s) (currentPlayer s) = None
     \<and> gameMode s = Single \<and> currentPlayer s = AI_PLAYER"

definition ai_timer :: "game_state \<Rightarrow> rat \<Rightarrow> game_state" where
  "ai_timer s rnd =
     (if \<not> ai_due s then s
      else (case difficulty s of
              None \<Rightarrow> s
            | Some d \<Rightarrow> (case getAIMove (board s) AI_PLAYER d rnd of
                           Some aiMove \<Rightarrow> performMove s aiMove
                         | None \<Rightarrow> s)))"

definition modal_timeout :: "game_state \<Rightarrow> game_state" where
  "modal_timeout s =
     (if modalTimers s = 0 then s
      else s\<lparr>showGameOverModal := True, modalTimers := modalTimers s - 1\<rparr>)"

definition handleSquareClick :: "game_state \<Rightarrow> int \<Rightarrow> int \<Rightarrow> game_state" where
  "handleSquareClick s r c =
     (if gameWinner s \<noteq> None \<or> isPaused s \<or> \<not> isPlayerTurn s then s
      else (case find (\<lambda>m. row (move_to m) = r \<and> col (move_to m) = c) (validMoves s) of
              Some clickedMove \<Rightarrow> performMove s clickedMove
            | None \<Rightarrow>
                (case get_sq (board s) r c of
                   Some pc \<Rightarrow>
                     (if player pc = currentPlayer s then
                        (if mandatoryCaptures s \<noteq> []
                            \<and> \<not> list_ex (\<lambda>m. row (move_from m) = r \<and> col (move_from m) = c)
                                  (mandatoryCaptures s)
                         then s
                         else s\<lparr>selectedPiece := Some \<lparr>row = r, col = c\<rparr>,
                                validMoves := getValidMoves (board s) \<lparr>row = r, col = c\<rparr>\<rparr>)
                      else s\<lparr>selectedPiece := None, validMoves := []\<rparr>)
                 | None \<Rightarrow> s\<lparr>selectedPiece := None, validMoves := []\<rparr>)))"

text \<open>\<open>handleRestart\<close> does not cancel a pending game-over modal timer.\<close>

definition handleRestart :: "game_state \<Rightarrow> game_state" where
  "handleRestart s =
     s\<lparr>board := createInitialBoard, currentPlayer := PLAYER_ONE, selectedPiece := None,
       validMoves := [], gameWinner := None, gameResult := None, showGameOverModal := False,
       isPaused := False, history := [createInitialBoard], mandatoryCaptures := []\<rparr>"

definition handleUndo :: "game_state \<Rightarrow> game_state" where
  "handleUndo s =
     (if gameWinner s \<noteq> None \<or> length (history s) \<le> 1 then s
      else (let movesToUndo = (if gameMode s = Single \<and> 2 < length (history s) then 2 else 1);
                newHistory = take (length (history s) - movesToUndo) (history s)
            in if newHistory = [] then handleRestart s
               else s\<lparr>history := newHistory, board := last newHistory, currentPlayer := PLAYER_ONE,
                      gameWinner := None, selectedPiece := None, validMoves := [],
                      mandatoryCaptures := []\<rparr>))"

text \<open>
  What \<open>GameOverModal\<close> (\<open>src/src/components/GameOverModal.tsx\<close>) draws for its props
  \<open>isOpen\<close> and \<open>result\<close>: nothing without a result or when closed; otherwise the
  confetti (for a human win: White in single-player mode, anyone in two-player mode), the
  title, the subtitle, the score and the move count.
\<close>

record modal_content =
  confetti :: bool
  title :: string
  subtitle :: string
  shownScore :: int
  shownMoves :: nat

definition gameOverModal :: "bool \<Rightarrow> game_result option \<Rightarrow> modal_content option" where
  "gameOverModal isOpen result =
     (case result of
        None \<Rightarrow> None
      | Some r \<Rightarrow>
          (if \<not> isOpen then None
           else Some \<lparr>confetti = (if mode r = Single then winner r = WHITE else True),
                      title = (if winner r = WHITE then ''White Wins!'' else ''Black Wins!''),
                      subtitle = (if mode r = Single then winnerName r else ''Victory''),
                      shownScore = score r, shownMoves = moves r\<rparr>))"

section \<open>Runs of the screen\<close>

datatype game_event =
    SquareClick int int
  | RunEffect
  | AITimer rat
  | ModalTimeout
  | Restart
  | Undo
  | TogglePause
  | ToggleMute
  | TogglePaths
  | ToggleSuggestions
  | DismissModal
  | PersistPrefs

fun game_step :: "game_state \<Rightarrow> game_event \<Rightarrow> game_state" where
  "game_step s (SquareClick r c) = handleSquareClick s r c"
| "game_step s RunEffect = game_effect s"
| "game_step s (AITimer rnd) = ai_timer s rnd"
| "game_step s ModalTimeout = modal_timeout s"
| "game_step s Restart = handleRestart s"
| "game_step s Undo = handleUndo s"
| "game_step s TogglePause = s\<lparr>isPaused := \<not> isPaused s\<rparr>"
| "game_step s ToggleMute = s\<lparr>isMuted := \<not> isMuted s\<rparr>"
| "game_step s TogglePaths = s\<lparr>showPlayerPaths := \<not> showPlayerPaths s\<rparr>"
| "game_step s ToggleSuggestions = s\<lparr>enableSuggestions := \<not> enableSuggestions s\<rparr>"
| "game_step s DismissModal = s\<lparr>showGameOverModal := False\<rparr>"
| "game_step s PersistPrefs = persist_prefs s"

text \<open>\<open>Math.random()\<close> lies in \<open>[0, 1)\<close>.\<close>

fun valid_event :: "game_event \<Rightarrow> bool" where
  "valid_event (AITimer rnd) = (0 \<le> rnd \<and> rnd < 1)"
| "valid_event _ = True"

inductive reachable :: "game_state \<Rightarrow> bool" where
  start: "reachable (initialGameState gm diff store)"
| step: "reachable s \<Longrightarrow> valid_event e \<Longrightarrow> reachable (game_step s e)"

text \<open>
  The controller invariant: the history is non-empty and ends with the displayed board,
  every board in it is 8\<times>8, the highlighted moves are legal moves of the side to move,
  and a game result is recorded exactly when there is a winner, naming that winner.
\<close>

definition game_inv :: "game_state \<Rightarrow> bool" where
  "game_inv s \<longleftrightarrow>
     history s \<noteq> [] \<and> last (history s) = board s \<and> (\<forall>b \<in> set (history s). wf_board b)
     \<and> set (validMoves s) \<subseteq> set (getAllPlayerMoves (board s) (currentPlayer s))
     \<and> (case gameResult s of None \<Rightarrow> gameWinner s = None | Some r \<Rightarrow> gameWinner s = Some (winner r))"

section \<open>Lemmas\<close>

lemma wf_createInitialBoard [simp]: "wf_board createInitialBoard"
  by (simp add: wf_board_def) code_simp

lemma getValidMoves_legal:
  assumes wf: "wf_board b" and pc: "get_sq b r c = Some pc"
  shows "set (getValidMoves b \<lparr>row = r, col = c\<rparr>) \<subseteq> set (getAllPlayerMoves b (player pc))"
proof (cases "findCaptureMoves b (player pc) = []")
  case True
  have "is_within_board r c" using get_sq_Some_in_board [OF wf pc] .
  then have "set (stepMoves b \<lparr>row = r, col = c\<rparr> pc) \<subseteq> set (findStandardMoves b (player pc))"
    using pc by (simp add: findStandardMoves_def mem_scan_pieces subset_iff) blast
  then show ?thesis using True pc by (simp add: getValidMoves_def getAllPlayerMoves_def)
next
  case False
  then show ?thesis using pc by (auto simp: getValidMoves_def getAllPlayerMoves_def)
qed

lemma initialGameState_props [simp]:
  "gameMode (initialGameState gm diff store) = gm"
  "difficulty (initialGameState gm diff store) = diff"
  "localStore (initialGameState gm diff store) = store"
  by (simp_all add: initialGameState_def)

lemma performMove_fields [simp]:
  "board (performMove s mv) = newBoard (applyMove (board s) mv)"
  "history (performMove s mv) = history s @ [newBoard (applyMove (board s) mv)]"
  "gameWinner (performMove s mv) = gameWinner s"
  "gameResult (performMove s mv) = gameResult s"
  "gameMode (performMove s mv) = gameMode s"
  by (simp_all add: performMove_def Let_def)

lemma performMove_validMoves:
  "set (validMoves (performMove s mv))
     \<subseteq> set (getAllPlayerMoves (board (performMove s mv)) (currentPlayer (performMove s mv)))"
proof -
  let ?nb = "newBoard (applyMove (board s) mv)"
  let ?ch = "chainedCaptures ?nb (currentPlayer s) mv"
  have "?ch \<noteq> [] \<Longrightarrow> set ?ch \<subseteq> set (getAllPlayerMoves ?nb (currentPlayer s))"
    by (auto simp: chainedCaptures_def getAllPlayerMoves_def Let_def)
  then show ?thesis by (auto simp: performMove_def Let_def)
qed

lemma game_inv_board_wf: "game_inv s \<Longrightarrow> wf_board (board s)"
  by (auto simp: game_inv_def dest: last_in_set)

lemma game_inv_performMove: "game_inv s \<Longrightarrow> game_inv (performMove s mv)"
  using performMove_validMoves [of s mv] game_inv_board_wf [of s] by (auto simp: game_inv_def split: option.splits)

lemma game_inv_click: "game_inv s \<Longrightarrow> game_inv (handleSquareClick s r c)"
proof -
  assume inv: "game_inv s"
  have sel: "game_inv (s\<lparr>selectedPiece := Some \<lparr>row = r, col = c\<rparr>,
                          validMoves := getValidMoves (board s) \<lparr>row = r, col = c\<rparr>\<rparr>)"
    if "get_sq (board s) r c = Some pc" "player pc = currentPlayer s" for pc
    using getValidMoves_legal [OF game_inv_board_wf [OF inv] that(1)] that(2) inv
    by (auto simp: game_inv_def split: option.splits)
  show ?thesis
    using inv sel game_inv_performMove [OF inv]
    by (auto simp: handleSquareClick_def game_inv_def split: option.splits)
qed

lemma game_inv_effect: "game_inv s \<Longrightarrow> game_inv (game_effect s)"
  by (auto simp: game_effect_def game_inv_def Let_def split: option.splits)

lemma game_inv_ai_timer: "game_inv s \<Longrightarrow> game_inv (ai_timer s rnd)"
  using game_inv_performMove by (auto simp: ai_timer_def split: option.splits)

lemma game_inv_restart: "game_inv (handleRestart s)"
  by (simp add: handleRestart_def game_inv_def)

lemma game_inv_undo: "game_inv s \<Longrightarrow> game_inv (handleUndo s)"
proof -
  assume inv: "game_inv s"
  show ?thesis
  proof (cases "gameWinner s \<noteq> None \<or> length (history s) \<le> 1")
    case True
    then show ?thesis using inv by (simp add: handleUndo_def)
  next
    case False
    then have res: "gameResult s = None" using inv by (auto simp: game_inv_def split: option.splits)
    have "\<forall>b\<in>set (take n (history s)). wf_board b" for n
      using inv by (auto simp: game_inv_def dest: in_set_takeD)
    then show ?thesis
      using False res game_inv_restart [of s]
      by (auto simp: handleUndo_def game_inv_def Let_def)
  qed
qed

lemma game_inv_step: "game_inv s \<Longrightarrow> game_inv (game_step s e)"
  by (cases e)
     (auto simp: game_inv_click game_inv_effect game_inv_ai_timer game_inv_restart game_inv_undo
                 modal_timeout_def persist_prefs_def,
      auto simp: game_inv_def split: option.splits)

lemma reachable_game_inv_aux: "reachable s \<Longrightarrow> game_inv s"
proof (induction rule: reachable.induct)
  case (start gm diff store)
  show ?case by (simp add: initialGameState_def game_inv_def)
next
  case (step s e)
  from step.IH show ?case by (rule game_inv_step)
qed

lemma count_sq_mono:
  "(\<And>q. P q \<Longrightarrow> Q q) \<Longrightarrow> count_sq P b \<le> count_sq Q b"
proof -
  assume PQ: "\<And>q. P q \<Longrightarrow> Q q"
  have "length (filter (sq_has P) rw) \<le> length (filter (sq_has Q) rw)" for rw :: "square list"
  proof (induction rw)
    case Nil
    then show ?case by simp
  next
    case (Cons x rw)
    then show ?case using PQ by (cases x) (auto simp: sq_has_def)
  qed
  then show ?thesis unfolding count_sq_def by (intro sum_list_mono) simp
qed

lemma history_step_cases:
  assumes inv: "game_inv s" and ev: "valid_event e"
  shows "history (game_step s e) = history s
         \<or> history (game_step s e) = [createInitialBoard]
         \<or> length (history (game_step s e)) < length (history s)
         \<or> (\<exists>m\<in>set (getAllPlayerMoves (board s) (currentPlayer s)).
               game_step s e = performMove s m)"
proof (cases e)
  case (SquareClick r c)
  have "m \<in> set (validMoves s) \<Longrightarrow> m \<in> set (getAllPlayerMoves (board s) (currentPlayer s))" for m
    using inv by (auto simp: game_inv_def split: option.splits)
  then show ?thesis
    using SquareClick by (auto simp: handleSquareClick_def split: option.splits dest: find_Some_mem)
next
  case (AITimer rnd)
  then have "0 \<le> rnd" "rnd < 1" using ev by auto
  show ?thesis
  proof (cases "ai_due s \<and> difficulty s \<noteq> None")
    case False
    then show ?thesis using AITimer by (auto simp: ai_timer_def)
  next
    case True
    then obtain d where d: "difficulty s = Some d" and due: "ai_due s" by auto
    have mem: "getAIMove (board s) AI_PLAYER d rnd \<in>
       (if getAllPlayerMoves (board s) AI_PLAYER = [] then {None}
        else Some ` set (getAllPlayerMoves (board s) AI_PLAYER))"
      by (rule getAIMove_in_moves) fact+
    have cur: "currentPlayer s = AI_PLAYER" using due by (simp add: ai_due_def)
    show ?thesis
    proof (cases "getAIMove (board s) AI_PLAYER d rnd")
      case None
      then show ?thesis using AITimer d due by (simp add: ai_timer_def)
    next
      case (Some m)
      then have "m \<in> set (getAllPlayerMoves (board s) (currentPlayer s))"
        using mem cur by (auto split: if_splits)
      then show ?thesis using AITimer d due Some by (auto simp: ai_timer_def)
    qed
  qed
next
  case Undo
  then show ?thesis by (auto simp: handleUndo_def handleRestart_def Let_def)
qed (auto simp: game_effect_def modal_timeout_def handleRestart_def persist_prefs_def Let_def
          split: option.splits)

section \<open>Properties of the game controller\<close>

text \<open>
  C23 (controller invariant). In every state the screen can reach from its initial state
  by clicks, button presses, timers and effect runs, the move history is non-empty and
  ends with the displayed board, every board in it is 8\<times>8, every highlighted move is a
  legal move of the side to move, and a game result is recorded exactly when a winner is.
\<close>

theorem reachable_game_inv: "reachable s \<Longrightarrow> game_inv s"
  by (rule reachable_game_inv_aux)

theorem reachable_game_inv_witness:
  "reachable (initialGameState Single (Some Hard) Map.empty)
   \<and> game_inv (initialGameState Single (Some Hard) Map.empty)"
  using reachable.start [of Single "Some Hard" Map.empty]
    reachable_game_inv [of "initialGameState Single (Some Hard) Map.empty"] by simp

text \<open>
  C24 (only legal moves are played). Whenever an event of a reachable state appends a
  board to the history, that board is the result of applying a legal move of the side to
  move: clicks only play highlighted moves, and the AI only plays legal moves.
\<close>

theorem history_extends_by_legal_move:
  assumes "reachable s" "valid_event e" "history (game_step s e) = history s @ [b']"
  shows "\<exists>m\<in>set (getAllPlayerMoves (board s) (currentPlayer s)).
           b' = newBoard (applyMove (board s) m)"
proof -
  have inv: "game_inv s" using assms(1) by (rule reachable_game_inv_aux)
  then have ne: "history s \<noteq> []" by (simp add: game_inv_def)
  from history_step_cases [OF inv assms(2)] show ?thesis
  proof (elim disjE)
    assume "\<exists>m\<in>set (getAllPlayerMoves (board s) (currentPlayer s)). game_step s e = performMove s m"
    then show ?thesis using assms(3) by auto
  qed (use assms(3) ne in auto)
qed

theorem history_extends_by_legal_move_witness:
  "reachable (game_step (initialGameState Two None Map.empty) (SquareClick 5 0))
   \<and> valid_event (SquareClick 4 1)
   \<and> history (game_step (game_step (initialGameState Two None Map.empty) (SquareClick 5 0)) (SquareClick 4 1))
       = history (game_step (initialGameState Two None Map.empty) (SquareClick 5 0))
         @ [newBoard (applyMove createInitialBoard
              \<lparr>move_from = \<lparr>row = 5, col = 0\<rparr>, move_to = \<lparr>row = 4, col = 1\<rparr>, captured = []\<rparr>)]
   \<and> (\<exists>m\<in>set (getAllPlayerMoves (board (game_step (initialGameState Two None Map.empty) (SquareClick 5 0)))
                 (currentPlayer (game_step (initialGameState Two None Map.empty) (SquareClick 5 0)))).
         newBoard (applyMove createInitialBoard
              \<lparr>move_from = \<lparr>row = 5, col = 0\<rparr>, move_to = \<lparr>row = 4, col = 1\<rparr>, captured = []\<rparr>)
         = newBoard (applyMove (board (game_step (initialGameState Two None Map.empty) (SquareClick 5 0))) m))"
proof -
  let ?s1 = "game_step (initialGameState Two None Map.empty) (SquareClick 5 0)"
  have r: "reachable ?s1" by (rule reachable.step [OF reachable.start]) simp
  have h: "history (game_step ?s1 (SquareClick 4 1))
       = history ?s1 @ [newBoard (applyMove createInitialBoard
              \<lparr>move_from = \<lparr>row = 5, col = 0\<rparr>, move_to = \<lparr>row = 4, col = 1\<rparr>, captured = []\<rparr>)]"
    by code_simp
  have b: "board ?s1 = createInitialBoard"
    by code_simp
  show ?thesis using history_extends_by_legal_move [OF r _ h] r h b by simp
qed

text \<open>
  C25 (undo reverts a move). In two-player mode, from a settled position with White to
  move (no winner, nothing selected or highlighted, the history ending with the displayed
  board), playing any move and then pressing undo restores exactly the state before the
  move.
\<close>

theorem undo_after_move:
  assumes "gameMode s = Two" "gameWinner s = None" "history s \<noteq> []" "last (history s) = board s"
    "currentPlayer s = PLAYER_ONE" "selectedPiece s = None" "validMoves s = []"
    "mandatoryCaptures s = []"
  shows "handleUndo (performMove s mv) = s"
  using assms by (auto simp: handleUndo_def performMove_def Let_def)

theorem undo_after_move_witness:
  "gameMode (initialGameState Two None Map.empty) = Two
   \<and> handleUndo (performMove (initialGameState Two None Map.empty) \<lparr>move_from = \<lparr>row = 5, col = 0\<rparr>, move_to = \<lparr>row = 4, col = 1\<rparr>, captured = []\<rparr>)
       = initialGameState Two None Map.empty"
  using undo_after_move [of "initialGameState Two None Map.empty" "\<lparr>move_from = \<lparr>row = 5, col = 0\<rparr>, move_to = \<lparr>row = 4, col = 1\<rparr>, captured = []\<rparr>"]
  by (simp add: initialGameState_def)

text \<open>
  C26 (two-player undo hands the move to the wrong side). In two-player mode, after White
  and then Black have made a quiet move, undo shows the board after White's move (where
  Black is to move) but gives the turn to White, so White moves twice in a row.
\<close>

theorem undo_two_player_turn:
  assumes "gameMode s = Two" "currentPlayer s = PLAYER_ONE" "gameWinner s = None"
    "captured m1 = []" "captured m2 = []"
  shows "currentPlayer (performMove s m1) = PLAYER_TWO
         \<and> board (handleUndo (performMove (performMove s m1) m2)) = board (performMove s m1)
         \<and> currentPlayer (handleUndo (performMove (performMove s m1) m2)) = PLAYER_ONE"
  using assms by (simp add: handleUndo_def performMove_def Let_def)

theorem undo_two_player_turn_witness:
  "\<lparr>move_from = \<lparr>row = 5, col = 0\<rparr>, move_to = \<lparr>row = 4, col = 1\<rparr>, captured = []\<rparr> \<in> set (getAllPlayerMoves createInitialBoard WHITE)
   \<and> \<lparr>move_from = \<lparr>row = 2, col = 1\<rparr>, move_to = \<lparr>row = 3, col = 2\<rparr>, captured = []\<rparr>
       \<in> set (getAllPlayerMoves (board (performMove (initialGameState Two None Map.empty) \<lparr>move_from = \<lparr>row = 5, col = 0\<rparr>, move_to = \<lparr>row = 4, col = 1\<rparr>, captured = []\<rparr>)) BLACK)
   \<and> currentPlayer (handleUndo (performMove (performMove (initialGameState Two None Map.empty) \<lparr>move_from = \<lparr>row = 5, col = 0\<rparr>, move_to = \<lparr>row = 4, col = 1\<rparr>, captured = []\<rparr>)
         \<lparr>move_from = \<lparr>row = 2, col = 1\<rparr>, move_to = \<lparr>row = 3, col = 2\<rparr>, captured = []\<rparr>)) = WHITE
   \<and> currentPlayer (performMove (initialGameState Two None Map.empty) \<lparr>move_from = \<lparr>row = 5, col = 0\<rparr>, move_to = \<lparr>row = 4, col = 1\<rparr>, captured = []\<rparr>) = BLACK"
proof -
  have h1: "\<lparr>move_from = \<lparr>row = 5, col = 0\<rparr>, move_to = \<lparr>row = 4, col = 1\<rparr>, captured = []\<rparr> \<in> set (getAllPlayerMoves createInitialBoard WHITE)" by code_simp
  have h2: "\<lparr>move_from = \<lparr>row = 2, col = 1\<rparr>, move_to = \<lparr>row = 3, col = 2\<rparr>, captured = []\<rparr>
       \<in> set (getAllPlayerMoves (board (performMove (initialGameState Two None Map.empty) \<lparr>move_from = \<lparr>row = 5, col = 0\<rparr>, move_to = \<lparr>row = 4, col = 1\<rparr>, captured = []\<rparr>)) BLACK)"
    by code_simp
  show ?thesis
    using undo_two_player_turn [of "initialGameState Two None Map.empty" "\<lparr>move_from = \<lparr>row = 5, col = 0\<rparr>, move_to = \<lparr>row = 4, col = 1\<rparr>, captured = []\<rparr>" "\<lparr>move_from = \<lparr>row = 2, col = 1\<rparr>, move_to = \<lparr>row = 3, col = 2\<rparr>, captured = []\<rparr>"] h1 h2
    by (simp add: initialGameState_def)
qed

text \<open>
  C27 (a stale game-over flag). The effect that detects a win starts a one-second timer
  that opens the game-over modal and is never cancelled. If the player restarts before it
  fires, the flag is set on the fresh game (no winner, no result, the initial history);
  the modal stays hidden only because there is no result, and when a win is next
  detected the modal opens at once instead of after its delay.
\<close>

theorem restart_stale_modal:
  assumes "gameWinner s = None" "\<not> isPaused s" "checkWinCondition (board s) (currentPlayer s) = Some w"
  shows "let s' = game_step (game_step (game_step s RunEffect) Restart) ModalTimeout;
             t = game_effect (s'\<lparr>board := board s, currentPlayer := currentPlayer s\<rparr>)
         in showGameOverModal s' \<and> gameWinner s' = None \<and> gameResult s' = None
            \<and> history s' = [createInitialBoard]
            \<and> gameOverModal (showGameOverModal s') (gameResult s') = None
            \<and> gameOverModal (showGameOverModal t) (gameResult t) \<noteq> None"
  using assms by (simp add: game_effect_def handleRestart_def modal_timeout_def gameOverModal_def Let_def)

theorem restart_stale_modal_witness:
  "gameWinner ((initialGameState Single (Some Easy) Map.empty)
      \<lparr>board := immobilized_black_board, currentPlayer := BLACK\<rparr>) = None
   \<and> checkWinCondition immobilized_black_board BLACK = Some WHITE
   \<and> showGameOverModal (game_step (game_step (game_step ((initialGameState Single (Some Easy) Map.empty)
        \<lparr>board := immobilized_black_board, currentPlayer := BLACK\<rparr>) RunEffect) Restart) ModalTimeout)"
proof -
  have h: "checkWinCondition immobilized_black_board BLACK = Some WHITE"
    by (simp add: immobilized_black_board_def board_of_def) code_simp
  show ?thesis
    using restart_stale_modal [of "(initialGameState Single (Some Easy) Map.empty)
        \<lparr>board := immobilized_black_board, currentPlayer := BLACK\<rparr>"] h
    by (simp add: initialGameState_def Let_def)
qed

lemma ai_timer_legal_move:
  assumes "ai_due s" "difficulty s = Some d" "0 \<le> rnd" "rnd < 1"
  shows "\<exists>m\<in>set (getAllPlayerMoves (board s) AI_PLAYER). game_step s (AITimer rnd) = performMove s m"
proof -
  have cur: "currentPlayer s = AI_PLAYER" and nw: "checkWinCondition (board s) AI_PLAYER = None"
    using assms(1) by (auto simp: ai_due_def)
  have ne: "getAllPlayerMoves (board s) AI_PLAYER \<noteq> []"
    using nw by (rule checkWinCondition_None_moves)
  have "getAIMove (board s) AI_PLAYER d rnd \<in> Some ` set (getAllPlayerMoves (board s) AI_PLAYER)"
    using getAIMove_in_moves [OF assms(3,4), of "board s" AI_PLAYER d] ne by simp
  then obtain m where m: "m \<in> set (getAllPlayerMoves (board s) AI_PLAYER)"
      and g: "getAIMove (board s) AI_PLAYER d rnd = Some m" by auto
  show ?thesis using m g assms(1,2) by (auto simp: ai_timer_def)
qed

text \<open>
  C29 (score bounds). The final score is never negative and is at most 1000 plus 300 per
  piece the winner has left (100 per piece and 200 more per king).
\<close>

theorem calculateScore_bounds:
  "0 \<le> calculateScore w n b
   \<and> calculateScore w n b \<le> 1000 + 300 * int (count_sq (\<lambda>q. player q = w) b)"
proof -
  have "count_sq (\<lambda>q. player q = w \<and> ptype q = KING) b \<le> count_sq (\<lambda>q. player q = w) b"
    by (rule count_sq_mono) simp
  then show ?thesis by (simp add: calculateScore_def Let_def)
qed

text \<open>
  C30 (preferences survive a remount). Persisting the three toggles to \<open>localStorage\<close>
  and mounting the screen again with that storage restores the mute, suggestion and
  path settings, for every game mode and difficulty.
\<close>

theorem prefs_roundtrip:
  "isMuted (initialGameState gm diff (localStore (persist_prefs s))) = isMuted s
   \<and> enableSuggestions (initialGameState gm diff (localStore (persist_prefs s))) = enableSuggestions s
   \<and> showPlayerPaths (initialGameState gm diff (localStore (persist_prefs s))) = showPlayerPaths s"
  by (simp add: initialGameState_def persist_prefs_def stored_flag_def bool_string_def)

text \<open>
  C34 (the undo button is disabled exactly when undo would do nothing). \<open>canUndo\<close>,
  which disables the button, holds exactly when \<open>handleUndo\<close> changes the state; the
  handler's guard (a winner, or a history of one board) is the only no-op.
\<close>

theorem undo_enabled_iff_effective: "handleUndo s \<noteq> s \<longleftrightarrow> canUndo s"
proof
  assume ne: "handleUndo s \<noteq> s"
  show "canUndo s"
  proof (rule ccontr)
    assume "\<not> canUndo s"
    then have "handleUndo s = s" by (auto simp: handleUndo_def canUndo_def)
    with ne show False ..
  qed
next
  assume c: "canUndo s"
  let ?k = "if gameMode s = Single \<and> 2 < length (history s) then 2 else 1 :: nat"
  have "length (take (length (history s) - ?k) (history s)) < length (history s)"
    using c by (auto simp: canUndo_def)
  moreover have "length [createInitialBoard] < length (history s)"
    using c by (simp add: canUndo_def)
  ultimately have "history (handleUndo s) \<noteq> history s"
    using c by (auto simp: handleUndo_def canUndo_def handleRestart_def Let_def)
  then show "handleUndo s \<noteq> s" by auto
qed

end
