(* ===== verification/App.thy ===== *)
theory App
  imports GameScreen
begin

text \<open>
  The application shell: \<open>src/src/App.tsx\<close> switches between the menu and the game
  screen, and \<open>src/src/screens/MainMenu.tsx\<close> chooses the mode and, for a game against the
  AI, the difficulty. Choosing a mode mounts a fresh \<open>GameScreen\<close>, whose state starts as
  \<open>initialGameState\<close> with the stored preferences; going back to the menu unmounts it,
  keeping only what it wrote to \<open>localStorage\<close>, and remounts the menu with its
  difficulty list closed. The mounted screen's state is the field \<open>screen\<close>; while the
  menu is shown it is the last screen's state and is not used.
\<close>

section \<open>State and operations\<close>

datatype app_screen = MenuScreen | PlayingScreen

record app_state =
  appGameState :: app_screen
  appGameMode :: game_mode
  appDifficulty :: "difficulty option"
  showDifficulty :: bool
  screen :: game_state
  storage :: "string \<Rightarrow> string option"

text \<open>The menu's difficulty entries: identifier, label and description.\<close>

definition difficulties :: "(difficulty \<times> string \<times> string) list" where
  "difficulties =
     [(Easy, ''Easy'', ''Basic moves''), (Medium, ''Medium'', ''Strategic play''),
      (Hard, ''Hard'', ''Grandmaster level'')]"

definition initialAppState :: "(string \<Rightarrow> string option) \<Rightarrow> app_state" where
  "initialAppState store =
     \<lparr>appGameState = MenuScreen, appGameMode = Two, appDifficulty = None, showDifficulty = False,
      screen = initialGameState Two None store, storage = store\<rparr>"

definition handleSelectMode :: "app_state \<Rightarrow> game_mode \<Rightarrow> difficulty option \<Rightarrow> app_state" where
  "handleSelectMode a gm diff =
     a\<lparr>appGameMode := gm, appDifficulty := diff, appGameState := PlayingScreen,
       screen := initialGameState gm diff (storage a)\<rparr>"

definition handleBackToMenu :: "app_state \<Rightarrow> app_state" where
  "handleBackToMenu a =
     a\<lparr>appGameState := MenuScreen, showDifficulty := False, storage := localStore (screen a)\<rparr>"

datatype app_event =
    ChooseSinglePlayer
  | ChooseTwoPlayer
  | ChooseDifficulty difficulty
  | DifficultyBack
  | BackToMenu
  | ScreenEvent game_event

text \<open>
  The menu's buttons: the first panel offers single player (which opens the difficulty
  list) and two players; the second lists the difficulties and a back button. A button
  that is not rendered cannot be clicked.
\<close>

definition menu_step :: "app_state \<Rightarrow> app_event \<Rightarrow> app_state" where
  "menu_step a e =
     (case e of
        ChooseSinglePlayer \<Rightarrow> (if \<not> showDifficulty a then a\<lparr>showDifficulty := True\<rparr> else a)
      | ChooseTwoPlayer \<Rightarrow> (if \<not> showDifficulty a then handleSelectMode a Two None else a)
      | ChooseDifficulty d \<Rightarrow>
          (if showDifficulty a \<and> d \<in> fst ` set difficulties then handleSelectMode a Single (Some d) else a)
      | DifficultyBack \<Rightarrow> (if showDifficulty a then a\<lparr>showDifficulty := False\<rparr> else a)
      | _ \<Rightarrow> a)"

text \<open>
  \<open>App\<close> renders the menu or the game screen; on the game screen the menu button of the
  header and of the game-over dialog call \<open>handleBackToMenu\<close>, and every other event goes
  to the screen.
\<close>

definition app_step :: "app_state \<Rightarrow> app_event \<Rightarrow> app_state" where
  "app_step a e =
     (case appGameState a of
        MenuScreen \<Rightarrow> menu_step a e
      | PlayingScreen \<Rightarrow>
          (case e of
             BackToMenu \<Rightarrow> handleBackToMenu a
           | ScreenEvent ge \<Rightarrow> a\<lparr>screen := game_step (screen a) ge\<rparr>
           | _ \<Rightarrow> a))"

fun app_valid_event :: "app_event \<Rightarrow> bool" where
  "app_valid_event (ScreenEvent ge) = valid_event ge"
| "app_valid_event _ = True"

inductive app_reachable :: "app_state \<Rightarrow> bool" where
  app_start: "app_reachable (initialAppState store)"
| app_next: "app_reachable a \<Longrightarrow> app_valid_event e \<Longrightarrow> app_reachable (app_step a e)"

section \<open>Lemmas\<close>

lemma game_step_props [simp]:
  "gameMode (game_step s e) = gameMode s" "difficulty (game_step s e) = difficulty s"
  by (cases e; simp add: handleSquareClick_def performMove_def game_effect_def ai_timer_def
        modal_timeout_def handleRestart_def handleUndo_def persist_prefs_def Let_def
        split: option.splits)+

lemma app_reachable_screen:
  "app_reachable a \<Longrightarrow>
   reachable (screen a) \<and> (gameMode (screen a) = Single \<longrightarrow> difficulty (screen a) \<noteq> None)"
proof (induction rule: app_reachable.induct)
  case (app_start store)
  show ?case using reachable.start [of Two None store] by (simp add: initialAppState_def)
next
  case (app_next a e)
  have start: "reachable (initialGameState gm diff store)" for gm diff store
    by (rule reachable.start)
  show ?case
  proof (cases "appGameState a")
    case MenuScreen
    then show ?thesis using app_next start
      by (auto simp: app_step_def menu_step_def handleSelectMode_def difficulties_def
               split: app_event.splits)
  next
    case PlayingScreen
    then show ?thesis using app_next
      by (auto simp: app_step_def handleBackToMenu_def intro: reachable.step split: app_event.splits)
  qed
qed

section \<open>Properties of the application\<close>

text \<open>
  C28 (the AI always answers). In every state the application can reach, when the game
  screen is shown and the AI's timer is due (single-player mode, the AI to move, no
  winner, not paused, the position not terminal), firing the timer plays a legal move
  of the AI: the menu always passes a difficulty with single-player mode, so the
  timer's \<open>if (!difficulty) return\<close> never fires, and a non-terminal position has a move.
\<close>

theorem app_ai_moves:
  assumes "app_reachable a" "appGameState a = PlayingScreen" "ai_due (screen a)" "0 \<le> rnd" "rnd < 1"
  shows "\<exists>m\<in>set (getAllPlayerMoves (board (screen a)) AI_PLAYER).
           screen (app_step a (ScreenEvent (AITimer rnd))) = performMove (screen a) m"
proof -
  have "gameMode (screen a) = Single" using assms(3) by (simp add: ai_due_def)
  then obtain d where d: "difficulty (screen a) = Some d"
    using app_reachable_screen [OF assms(1)] by auto
  from ai_timer_legal_move [OF assms(3) d assms(4,5)] show ?thesis
    using assms(2) by (simp add: app_step_def)
qed

theorem app_ai_moves_witness:
  "let a = app_step (app_step (app_step (app_step (initialAppState Map.empty) ChooseSinglePlayer)
                  (ChooseDifficulty Hard)) (ScreenEvent (SquareClick 5 0))) (ScreenEvent (SquareClick 4 1))
   in app_reachable a \<and> appGameState a = PlayingScreen \<and> ai_due (screen a)
      \<and> (\<exists>m\<in>set (getAllPlayerMoves (board (screen a)) AI_PLAYER).
            screen (app_step a (ScreenEvent (AITimer (1 / 2)))) = performMove (screen a) m)"
proof -
  let ?a = "app_step (app_step (app_step (app_step (initialAppState Map.empty) ChooseSinglePlayer)
                  (ChooseDifficulty Hard)) (ScreenEvent (SquareClick 5 0))) (ScreenEvent (SquareClick 4 1))"
  have r: "app_reachable ?a"
    by (intro app_reachable.app_next app_reachable.app_start) simp_all
  have p: "appGameState ?a = PlayingScreen" by code_simp
  have due: "ai_due (screen ?a)" by code_simp
  show ?thesis using app_ai_moves [OF r p due, of "1 / 2"] r p due by (simp add: Let_def)
qed

text \<open>
  C35 (every mounted screen is a reachable screen). In every state the application can
  reach, the game screen's state satisfies the controller invariant (C23), and a
  single-player game always has a difficulty.
\<close>

theorem app_screen_inv:
  "app_reachable a \<Longrightarrow>
   game_inv (screen a) \<and> (gameMode (screen a) = Single \<longrightarrow> difficulty (screen a) \<noteq> None)"
  using app_reachable_screen [of a] reachable_game_inv_aux by blast

theorem app_screen_inv_witness:
  "app_reachable (app_step (initialAppState Map.empty) ChooseTwoPlayer)
   \<and> game_inv (screen (app_step (initialAppState Map.empty) ChooseTwoPlayer))"
proof -
  have r: "app_reachable (app_step (initialAppState Map.empty) ChooseTwoPlayer)"
    by (intro app_reachable.app_next app_reachable.app_start) simp
  show ?thesis using app_screen_inv [OF r] r by simp
qed

text \<open>
  C36 (a new game after the menu starts afresh and keeps the preferences). From a game
  in progress, persisting the preferences, going back to the menu and starting a
  two-player game shows the initial board with a one-board history, no winner and no
  selection, with the mute, suggestion and path settings of the previous game.
\<close>

theorem new_game_after_menu:
  assumes "appGameState a = PlayingScreen"
  shows "let a' = app_step (app_step (app_step a (ScreenEvent PersistPrefs)) BackToMenu) ChooseTwoPlayer
         in appGameState a' = PlayingScreen \<and> board (screen a') = createInitialBoard
            \<and> history (screen a') = [createInitialBoard] \<and> gameWinner (screen a') = None
            \<and> selectedPiece (screen a') = None \<and> currentPlayer (screen a') = PLAYER_ONE
            \<and> isMuted (screen a') = isMuted (screen a)
            \<and> enableSuggestions (screen a') = enableSuggestions (screen a)
            \<and> showPlayerPaths (screen a') = showPlayerPaths (screen a)"
  using assms
  by (simp add: app_step_def menu_step_def handleBackToMenu_def handleSelectMode_def initialGameState_def
                persist_prefs_def stored_flag_def bool_string_def Let_def)

theorem new_game_after_menu_witness:
  "appGameState (handleSelectMode (initialAppState Map.empty) Single (Some Easy)) = PlayingScreen
   \<and> history (screen (app_step (app_step (app_step (handleSelectMode (initialAppState Map.empty) Single (Some Easy))
        (ScreenEvent PersistPrefs)) BackToMenu) ChooseTwoPlayer)) = [createInitialBoard]"
  using new_game_after_menu [of "handleSelectMode (initialAppState Map.empty) Single (Some Easy)"]
  by (simp add: handleSelectMode_def Let_def)

end
