(* ===== verification/View.thy ===== *)
theory View
  imports GameScreen
begin

text \<open>
  What \<open>src/src/components/GameBoard.tsx\<close> draws on each square, as data: whether the
  square is a playable (dark) one, the selection highlight, the path and suggestion
  markers, the coordinate labels and the piece. \<open>GameScreen\<close> passes its board, the
  selection, the highlighted moves, the suggestions, the paths and
  \<open>isPlayerTurn && !winner\<close> (line 319 of the screen). Colours, animation and the
  \<open>GamePiece\<close> drawing are not modelled.
\<close>

section \<open>Definitions\<close>

record square_view =
  playable :: bool
  isSelected :: bool
  pathOriginGlow :: bool
  startSuggestedGlow :: bool
  pathTargetDot :: bool
  suggestionDot :: bool
  rankLabel :: "int option"
  fileLabel :: "char option"
  shownPiece :: "piece option"

definition targets_square :: "move list \<Rightarrow> int \<Rightarrow> int \<Rightarrow> bool" where
  "targets_square ms r c = list_ex (\<lambda>m. row (move_to m) = r \<and> col (move_to m) = c) ms"

definition starts_on_square :: "move list \<Rightarrow> int \<Rightarrow> int \<Rightarrow> bool" where
  "starts_on_square ms r c = list_ex (\<lambda>m. row (move_from m) = r \<and> col (move_from m) = c) ms"

text \<open>One square at \<open>(rowIndex, colIndex)\<close>.\<close>

definition square_view_of ::
  "position option \<Rightarrow> move list \<Rightarrow> move list \<Rightarrow> bool \<Rightarrow> int \<Rightarrow> int \<Rightarrow> square \<Rightarrow> square_view" where
  "square_view_of selPiece suggested paths turn r c sq =
     (let sel = (case selPiece of None \<Rightarrow> False | Some p \<Rightarrow> row p = r \<and> col p = c);
          isMoveSuggested = targets_square suggested r c;
          isStartSuggested = starts_on_square suggested r c;
          isPathTarget = targets_square paths r c;
          isPathOrigin = starts_on_square paths r c
      in \<lparr>playable = ((r + c) mod 2 = 1), isSelected = sel,
          pathOriginGlow = (\<not> sel \<and> isPathOrigin \<and> turn),
          startSuggestedGlow = (\<not> sel \<and> isStartSuggested \<and> \<not> isPathOrigin \<and> turn),
          pathTargetDot = (isPathTarget \<and> turn),
          suggestionDot = (isMoveSuggested \<and> \<not> isPathTarget \<and> turn),
          rankLabel = (if c = 0 then Some (8 - r) else None),
          fileLabel = (if r = 7 then Some (char_of (97 + nat c)) else None),
          shownPiece = sq\<rparr>)"

text \<open>\<open>board.map((row, rowIndex) => row.map((square, colIndex) => ...))\<close>.\<close>

definition renderBoard ::
  "board \<Rightarrow> position option \<Rightarrow> move list \<Rightarrow> move list \<Rightarrow> bool \<Rightarrow> square_view list list" where
  "renderBoard b selPiece suggested paths turn =
     map (\<lambda>(r, rw). map (\<lambda>(c, sq). square_view_of selPiece suggested paths turn (int r) (int c) sq)
                        (enumerate 0 rw))
         (enumerate 0 b)"

text \<open>The board as the game screen shows it.\<close>

definition screenBoardView :: "game_state \<Rightarrow> square_view list list" where
  "screenBoardView s =
     renderBoard (board s) (selectedPiece s) (suggestedMoves s) (playerPaths s)
       (isPlayerTurn s \<and> gameWinner s = None)"

section \<open>Lemmas\<close>

lemma renderBoard_nth:
  assumes "i < length b" "j < length (b ! i)"
  shows "renderBoard b sel sug pth turn ! i ! j
         = square_view_of sel sug pth turn (int i) (int j) (b ! i ! j)"
  using assms by (simp add: renderBoard_def nth_enumerate_eq)

lemma targets_square_iff:
  "targets_square ms r c \<longleftrightarrow> (\<exists>m\<in>set ms. move_to m = \<lparr>row = r, col = c\<rparr>)"
  by (auto simp: targets_square_def list_ex_iff intro: position_eqI)
     (metis position.select_convs(1) position.select_convs(2))

lemma get_sq_wf_nth:
  "wf_board b \<Longrightarrow> i < 8 \<Longrightarrow> j < 8 \<Longrightarrow> get_sq b (int i) (int j) = b ! i ! j
   \<and> i < length b \<and> j < length (b ! i)"
  by (auto simp: wf_board_def get_sq_def cell_def)

section \<open>Properties of the board view\<close>

text \<open>
  C37 (path markers show exactly the legal destinations). In every reachable screen
  state, a square of the board carries the path-target marker exactly when path
  highlighting is on, the game is not over or paused, it is the human's turn, and some
  legal move of the side to move ends on that square.
\<close>

theorem path_markers_exact:
  assumes "reachable s" "0 \<le> r" "r < 8" "0 \<le> c" "c < 8"
  shows "pathTargetDot (screenBoardView s ! nat r ! nat c) \<longleftrightarrow>
           showPlayerPaths s \<and> gameWinner s = None \<and> \<not> isPaused s \<and> isPlayerTurn s
           \<and> (\<exists>m\<in>set (getAllPlayerMoves (board s) (currentPlayer s)). move_to m = \<lparr>row = r, col = c\<rparr>)"
proof -
  have wf: "wf_board (board s)"
    using reachable_game_inv_aux [OF assms(1)] by (rule game_inv_board_wf)
  have "nat r < 8" "nat c < 8" using assms(2-5) by auto
  then have len: "nat r < length (board s)" "nat c < length (board s ! nat r)"
    using get_sq_wf_nth [OF wf] by blast+
  have ij: "int (nat r) = r" "int (nat c) = c" using assms(2,4) by auto
  show ?thesis
    unfolding screenBoardView_def renderBoard_nth [OF len] ij
    by (auto simp: square_view_of_def playerPaths_def targets_square_iff Let_def)
qed

theorem path_markers_exact_witness:
  "reachable ((initialGameState Two None Map.empty)\<lparr>showPlayerPaths := True\<rparr>)
   \<and> pathTargetDot (screenBoardView ((initialGameState Two None Map.empty)\<lparr>showPlayerPaths := True\<rparr>) ! 4 ! 1)"
proof -
  have r: "reachable ((initialGameState Two None Map.empty)\<lparr>showPlayerPaths := True\<rparr>)"
  proof -
    have "game_step (initialGameState Two None Map.empty) TogglePaths
          = (initialGameState Two None Map.empty)\<lparr>showPlayerPaths := True\<rparr>"
      by (simp add: initialGameState_def stored_flag_def)
    then show ?thesis using reachable.step [OF reachable.start, of TogglePaths Two None Map.empty] by simp
  qed
  have m: "\<exists>m\<in>set (getAllPlayerMoves createInitialBoard WHITE). move_to m = \<lparr>row = 4, col = 1\<rparr>"
    by code_simp
  show ?thesis
    using path_markers_exact [OF r, of 4 1] r m by (simp add: initialGameState_def isPlayerTurn_def)
qed

text \<open>
  C38 (no markers when the human cannot move). When the game is over, or in
  single-player mode while the AI is to move, no square of the board shows a path or
  suggestion marker, whatever the toggles say.
\<close>

theorem no_markers_off_turn:
  assumes "gameWinner s \<noteq> None \<or> (gameMode s = Single \<and> currentPlayer s = AI_PLAYER)"
  shows "\<forall>rw\<in>set (screenBoardView s). \<forall>sv\<in>set rw.
           \<not> pathOriginGlow sv \<and> \<not> startSuggestedGlow sv \<and> \<not> pathTargetDot sv \<and> \<not> suggestionDot sv"
proof -
  have "\<not> (isPlayerTurn s \<and> gameWinner s = None)"
    using assms by (auto simp: isPlayerTurn_def AI_PLAYER_def PLAYER_ONE_def PLAYER_TWO_def)
  then show ?thesis
    by (auto simp: screenBoardView_def renderBoard_def square_view_of_def Let_def)
qed

theorem no_markers_off_turn_witness:
  "gameMode ((initialGameState Single (Some Hard) Map.empty)\<lparr>currentPlayer := BLACK, showPlayerPaths := True\<rparr>) = Single
   \<and> \<not> pathTargetDot (screenBoardView ((initialGameState Single (Some Hard) Map.empty)
          \<lparr>currentPlayer := BLACK, showPlayerPaths := True\<rparr>) ! 3 ! 0)"
proof -
  let ?s = "(initialGameState Single (Some Hard) Map.empty)\<lparr>currentPlayer := BLACK, showPlayerPaths := True\<rparr>"
  have h: "gameWinner ?s \<noteq> None \<or> (gameMode ?s = Single \<and> currentPlayer ?s = AI_PLAYER)"
    by (simp add: AI_PLAYER_def PLAYER_TWO_def)
  have "length (screenBoardView ?s) = 8" "length (screenBoardView ?s ! 3) = 8"
    by code_simp+
  then have "screenBoardView ?s ! 3 \<in> set (screenBoardView ?s)" "screenBoardView ?s ! 3 ! 0 \<in> set (screenBoardView ?s ! 3)"
    by simp_all
  then show ?thesis using no_markers_off_turn [OF h] by simp
qed

end
