(* ===== verification/Material.thy ===== *)
theory Material
  imports WinCheck
begin

text \<open>
  Material accounting of a move: what \<open>applyMove\<close> (\<open>src/src/game/logic.ts\<close>) does to
  the piece counts of \<open>checkWinCondition\<close>'s loop (\<open>count_pieces\<close>) when it applies a
  legal move of \<open>getAllPlayerMoves\<close>. The opponent loses exactly the captured pieces.
  The mover keeps its piece count unless the move ends on its own start square:
  \<open>applyMove\<close> writes the piece to \<open>to\<close> before clearing \<open>from\<close>, so there the moving
  piece is erased as well. A chain never lands on a square it captured, because jumps
  keep the parities of both coordinates and captured squares have the other parities.
\<close>

section \<open>Definitions\<close>

text \<open>The squares of \<open>p\<close>'s pieces, the set \<open>count_pieces\<close> counts, and a position as
  the pair of its coordinates.\<close>

definition occupied :: "board \<Rightarrow> player \<Rightarrow> (int \<times> int) set" where
  "occupied b p =
     {(r, c). (r, c) \<in> set board_positions \<and> sq_has (\<lambda>q. player q = p) (get_sq b r c)}"

definition sq_of :: "position \<Rightarrow> int \<times> int" where
  "sq_of q = (row q, col q)"

section \<open>Where a legal move lands\<close>

lemma findCaptureMoves_chain:
  "m \<in> set (findCaptureMoves b p) \<Longrightarrow>
   \<exists>pc. Board.at b (move_from m) = Some pc \<and> m \<in> set (findPieceCaptureMovesRecursive b (move_from m) pc [])"
proof -
  assume "m \<in> set (findCaptureMoves b p)"
  then have "m \<in> set (scan_pieces b p (findPieceCaptureMoves b))"
    using keep_longest_subset by (auto simp: findCaptureMoves_def Let_def split: if_splits)
  then obtain r c pc where sq: "get_sq b r c = Some pc"
    and m: "m \<in> set (findPieceCaptureMovesRecursive b \<lparr>row = r, col = c\<rparr> pc [])"
    using findPieceCaptureMoves_subset by (fastforce simp: mem_scan_pieces)
  moreover have "move_from m = \<lparr>row = r, col = c\<rparr>"
    using chain_valid(1) [OF m] by (simp add: valid_chain_def)
  ultimately show ?thesis by auto
qed

lemma even_shift: "x = y + 2 * d \<Longrightarrow> even y \<Longrightarrow> even (x :: int)"
  by simp

lemma odd_shift: "x = y + 2 * d \<Longrightarrow> odd y \<Longrightarrow> odd (x :: int)"
  by simp

lemma directions_odd: "(dr, dc) \<in> set (directions pc) \<Longrightarrow> odd dr \<and> odd dc"
  by (auto simp: directions_def split: if_splits)

text \<open>
  Every chain of the search lands a multiple of two squares away from its start in both
  coordinates, every square it captures lies an odd distance away, and it lands on a
  square that was empty or on its own start square: the jumps keep the coordinates'
  parities, so a chain never lands on a square it captured.
\<close>

lemma chain_shape:
  shows "m \<in> set (findPieceCaptureMovesRecursive b frm pc cs) \<Longrightarrow>
           even (row (move_to m) - row frm) \<and> even (col (move_to m) - col frm)
           \<and> (\<forall>q\<in>set (drop (length cs) (captured m)). odd (row q - row frm))
           \<and> (at b (move_to m) = None \<or> move_to m = frm)"
    and "m \<in> set (captureDirections b frm pc cs ds) \<Longrightarrow> set ds \<subseteq> set (directions pc) \<Longrightarrow>
           even (row (move_to m) - row frm) \<and> even (col (move_to m) - col frm)
           \<and> (\<forall>q\<in>set (drop (length cs) (captured m)). odd (row q - row frm))
           \<and> (at b (move_to m) = None \<or> move_to m = frm)"
proof (induction b frm pc cs and b frm pc cs ds arbitrary: m and m
       rule: findPieceCaptureMovesRecursive_captureDirections.induct)
  case (1 b frm pc cs)
  then show ?case by simp
next
  case (2 b frm pc cs)
  then show ?case by simp
next
  case (3 b frm pc cs dr dc ds)
  define opp where "opp = \<lparr>row = row frm + dr, col = col frm + dc\<rparr>"
  define land where "land = \<lparr>row = row frm + 2 * dr, col = col frm + 2 * dc\<rparr>"
  define nb where "nb = put (put (put b land (Some pc)) frm None) opp None"
  let ?ch = "findPieceCaptureMovesRecursive nb land pc (cs @ [opp])"
  let ?G = "is_within_board (row land) (col land) \<and> at b land = None
          \<and> sq_has (is_enemy_of pc) (at b opp) \<and> opp \<notin> set cs"
  have odd_d: "odd dr" "odd dc" using "3.prems"(2) directions_odd by auto
  show ?case
  proof (cases "m \<in> set (captureDirections b frm pc cs ds)")
    case True
    then show ?thesis using "3.IH"(2) [OF refl refl] "3.prems"(2) by auto
  next
    case False
    with "3.prems"(1) have "m \<in> set (if ?ch \<noteq> [] then map (\<lambda>m. m\<lparr>move_from := frm\<rparr>) ?ch
                   else [\<lparr>move_from = frm, move_to = land, captured = cs @ [opp]\<rparr>])"
      (is "m \<in> set ?here") and G: ?G
      unfolding captureDirections_Cons opp_def land_def nb_def Let_def
      by (auto split: if_splits)
    show ?thesis
    proof (cases "?ch = []")
      case True
      with \<open>m \<in> set ?here\<close> G odd_d show ?thesis by (simp add: land_def opp_def)
    next
      case False
      with \<open>m \<in> set ?here\<close> obtain m' where m': "m' \<in> set ?ch" and mm: "m = m'\<lparr>move_from := frm\<rparr>"
        by auto
      have IH: "even (row (move_to m') - row land) \<and> even (col (move_to m') - col land)
           \<and> (\<forall>q\<in>set (drop (length (cs @ [opp])) (captured m')). odd (row q - row land))
           \<and> (at nb (move_to m') = None \<or> move_to m' = land)"
        using "3.IH"(1) [OF opp_def land_def _ nb_def refl] G m'
        unfolding list_ex_same_square by blast
      define rest where "rest = drop (Suc (length cs)) (captured m')"
      have "take (Suc (length cs)) (captured m') = cs @ [opp]"
        using chain_valid(1) [OF m'] by (simp add: valid_chain_def)
      then have cm: "captured m' = cs @ opp # rest"
        unfolding rest_def by (metis append.assoc append_Cons append_Nil append_take_drop_id)
      have e1: "even (row (move_to m') - row land)" "even (col (move_to m') - col land)"
        using IH by simp_all
      have ev1: "even (row (move_to m') - row frm)"
        by (rule even_shift [where d = dr, OF _ e1(1)]) (simp add: land_def)
      have ev2: "even (col (move_to m') - col frm)"
        by (rule even_shift [where d = dc, OF _ e1(2)]) (simp add: land_def)
      note ev = ev1 ev2
      have "move_to m' \<noteq> opp"
      proof
        assume "move_to m' = opp"
        then have "row (move_to m') - row frm = dr" by (simp add: opp_def)
        with ev(1) odd_d(1) show False by simp
      qed
      moreover have "at b (move_to m') = None \<or> move_to m' = frm \<or> move_to m' = opp"
        if "at nb (move_to m') = None"
        using that G unfolding nb_def
        by (auto simp: get_sq_set_sq split: if_splits intro: position_eqI)
      moreover have "odd (row q - row frm)" if q: "q \<in> set (drop (length cs) (captured m'))" for q
      proof -
        from q have "q = opp \<or> q \<in> set rest" by (simp add: cm)
        then show ?thesis
        proof
          assume "q = opp"
          then show ?thesis using odd_d(1) by (simp add: opp_def)
        next
          assume "q \<in> set rest"
          then have "odd (row q - row land)" using IH by (simp add: cm)
          then show ?thesis by (rule odd_shift [where d = dr, rotated]) (simp add: land_def)
        qed
      qed
      ultimately show ?thesis
        using IH G ev mm by auto
    qed
  qed
qed

lemma legal_move_landing:
  assumes "m \<in> set (getAllPlayerMoves b p)"
  shows "(at b (move_to m) = None \<or> move_to m = move_from m) \<and> move_to m \<notin> set (captured m)"
proof (cases "findCaptureMoves b p = []")
  case True
  with assms show ?thesis using findStandardMoves_sound by (fastforce simp: getAllPlayerMoves_def)
next
  case False
  with assms have "m \<in> set (findCaptureMoves b p)" by (simp add: getAllPlayerMoves_def)
  then obtain pc where "m \<in> set (findPieceCaptureMovesRecursive b (move_from m) pc [])"
    using findCaptureMoves_chain by blast
  from chain_shape(1) [OF this] show ?thesis by auto
qed

lemma legal_move_pieces:
  assumes "m \<in> set (getAllPlayerMoves b p)"
  shows "\<exists>pc. at b (move_from m) = Some pc \<and> player pc = p
           \<and> is_within_board (row (move_to m)) (col (move_to m))
           \<and> distinct (captured m)
           \<and> (\<forall>q \<in> set (captured m). \<exists>e. at b q = Some e \<and> player e = get_opponent p)"
proof (cases "findCaptureMoves b p = []")
  case True
  with assms have "m \<in> set (findStandardMoves b p)" by (simp add: getAllPlayerMoves_def)
  then show ?thesis using findStandardMoves_sound by fastforce
next
  case False
  with assms have "m \<in> set (findCaptureMoves b p)" by (simp add: getAllPlayerMoves_def)
  then obtain pc where "at b (move_from m) = Some pc" "player pc = p"
    "valid_chain b (move_from m) pc [] m"
    using findCaptureMoves_valid by blast
  then show ?thesis
    by (auto simp: valid_chain_Nil sq_has_def is_enemy_of_def split: option.splits)
qed

section \<open>Counting by squares\<close>

lemma count_pieces_occupied: "count_pieces b p = card (occupied b p)"
proof -
  have "count_pieces b p
        = card ({x. (\<lambda>(r, c). sq_has (\<lambda>q. player q = p) (get_sq b r c)) x} \<inter> set board_positions)"
    unfolding count_pieces_def by (rule distinct_length_filter [OF distinct_board_positions])
  also have "{x. (\<lambda>(r, c). sq_has (\<lambda>q. player q = p) (get_sq b r c)) x} \<inter> set board_positions
             = occupied b p"
    by (auto simp: occupied_def)
  finally show ?thesis .
qed

lemma finite_occupied [simp]: "finite (occupied b p)"
  by (rule finite_subset [of _ "set board_positions"]) (auto simp: occupied_def)

lemma sq_of_inj: "inj_on sq_of S"
  by (auto simp: inj_on_def sq_of_def intro: position_eqI)

lemma in_occupied: "wf_board b \<Longrightarrow> at b q = Some e \<Longrightarrow> sq_of q \<in> occupied b (player e)"
  using get_sq_Some_in_board [of b "row q" "col q" e]
  by (auto simp: occupied_def sq_of_def set_board_positions is_within_board_def sq_has_def)

lemma occupied_applyMove:
  assumes wf: "wf_board b" and pc: "at b (move_from m) = Some pc"
  shows "x \<in> occupied (newBoard (applyMove b m)) q \<longleftrightarrow>
         x \<in> set board_positions \<and> x \<notin> sq_of ` set (captured m) \<and> x \<noteq> sq_of (move_from m)
         \<and> (if x = sq_of (move_to m) then player pc = q else x \<in> occupied b q)"
proof (cases x)
  case (Pair r c)
  have "list_ex (\<lambda>p. row p = r \<and> col p = c \<and> is_within_board r c) (captured m)
        \<longleftrightarrow> (r, c) \<in> sq_of ` set (captured m) \<and> is_within_board r c"
    by (auto simp: list_ex_iff sq_of_def)
  moreover have "(r, c) \<in> set board_positions \<Longrightarrow> is_within_board r c \<and> cell b r c"
    using wf by (simp add: set_board_positions is_within_board_def cell_wf_board)
  ultimately show ?thesis
    using Pair applyMove_get_sq [OF pc, of r c]
    by (auto simp: occupied_def sq_of_def sq_has_def)
qed


lemma occupied_disjoint: "x \<in> occupied b p \<Longrightarrow> x \<in> occupied b (get_opponent p) \<Longrightarrow> False"
  by (auto simp: occupied_def sq_has_def split: option.splits)

lemma sq_of_eq_iff [simp]: "sq_of q = sq_of q' \<longleftrightarrow> q = q'"
  by (auto simp: sq_of_def intro: position_eqI)

lemma sq_of_in_image [simp]: "sq_of q \<in> sq_of ` S \<longleftrightarrow> q \<in> S"
  by auto

section \<open>Material accounting\<close>

text \<open>
  C33 (material accounting of a move). On an 8\<times>8 board, applying a legal move of
  \<open>p\<close> removes exactly the captured pieces of the opponent, and leaves \<open>p\<close>'s piece count
  unchanged unless the move ends on its start square, in which case \<open>p\<close> loses the
  moving piece too. A king's capture cycle is such a legal move (the witness): the
  capturing king disappears.
\<close>

theorem material_accounting:
  assumes wf: "wf_board b" and legal: "m \<in> set (getAllPlayerMoves b p)"
  shows "count_pieces (newBoard (applyMove b m)) (get_opponent p)
           = count_pieces b (get_opponent p) - length (captured m)
         \<and> count_pieces (newBoard (applyMove b m)) p
           = count_pieces b p
             - (if move_to m = move_from m then 1 else 0)"
proof -
  obtain pc where pc: "at b (move_from m) = Some pc" "player pc = p"
    and tob: "is_within_board (row (move_to m)) (col (move_to m))"
    and dist: "distinct (captured m)"
    and caps: "\<forall>q \<in> set (captured m). \<exists>e. at b q = Some e \<and> player e = get_opponent p"
    using legal_move_pieces [OF legal] by blast
  let ?CP = "sq_of ` set (captured m)"
  let ?f = "sq_of (move_from m)" and ?t = "sq_of (move_to m)"
  let ?nb = "newBoard (applyMove b m)"
  have CPopp: "?CP \<subseteq> occupied b (get_opponent p)"
    using caps in_occupied [OF wf] by fastforce
  have cardCP: "card ?CP = length (captured m)"
    using dist by (simp add: card_image [OF sq_of_inj] distinct_card)
  have f_p: "?f \<in> occupied b p" using in_occupied [OF wf pc(1)] pc(2) by simp
  have t_BP: "?t \<in> set board_positions"
    using tob by (simp add: sq_of_def set_board_positions is_within_board_def)
  have t_nc: "move_to m \<notin> set (captured m)" using legal_move_landing [OF legal] by blast
  have t_free: "?t \<notin> occupied b q" if "move_to m \<noteq> move_from m" for q
  proof -
    from legal_move_landing [OF legal] that have "at b (move_to m) = None" by blast
    then show ?thesis by (simp add: occupied_def sq_of_def sq_has_def)
  qed
  have occ_BP: "x \<in> occupied b q \<Longrightarrow> x \<in> set board_positions" for x q
    by (auto simp: occupied_def)
  have opp_eq: "occupied ?nb (get_opponent p) = occupied b (get_opponent p) - ?CP"
  proof (intro set_eqI iffI)
    fix x assume "x \<in> occupied ?nb (get_opponent p)"
    then show "x \<in> occupied b (get_opponent p) - ?CP"
      using pc(2) unfolding occupied_applyMove [OF wf pc(1)] by (auto split: if_splits)
  next
    fix x assume x: "x \<in> occupied b (get_opponent p) - ?CP"
    then have "x \<noteq> ?f" using f_p occupied_disjoint by blast
    moreover have "x \<noteq> ?t"
    proof
      assume "x = ?t"
      moreover have "move_to m \<noteq> move_from m" using \<open>x \<noteq> ?f\<close> \<open>x = ?t\<close> by auto
      ultimately show False using t_free x by auto
    qed
    moreover have "x \<in> set board_positions" using x occ_BP by blast
    ultimately show "x \<in> occupied ?nb (get_opponent p)"
      using x unfolding occupied_applyMove [OF wf pc(1)] by auto
  qed
  have p_eq: "occupied ?nb p = (occupied b p - {?f})
              \<union> (if move_to m \<noteq> move_from m then {?t} else {})"
  proof (intro set_eqI iffI)
    fix x assume "x \<in> occupied ?nb p"
    then show "x \<in> (occupied b p - {?f})
              \<union> (if move_to m \<noteq> move_from m then {?t} else {})"
      using pc(2) unfolding occupied_applyMove [OF wf pc(1)] by (auto split: if_splits)
  next
    fix x assume x: "x \<in> (occupied b p - {?f})
              \<union> (if move_to m \<noteq> move_from m then {?t} else {})"
    have notCP: "x \<notin> ?CP" if "x \<in> occupied b p" using that CPopp occupied_disjoint by blast
    show "x \<in> occupied ?nb p"
    proof (cases "x = ?t")
      case True
      with x t_free have "move_to m \<noteq> move_from m" by (auto split: if_splits)
      with True t_BP t_nc pc(2) show ?thesis unfolding occupied_applyMove [OF wf pc(1)] by auto
    next
      case False
      with x have "x \<in> occupied b p" "x \<noteq> ?f" by (auto split: if_splits)
      moreover from this(1) have "x \<in> set board_positions" using occ_BP by blast
      ultimately show ?thesis using False notCP unfolding occupied_applyMove [OF wf pc(1)] by auto
    qed
  qed
  have opp_card: "count_pieces ?nb (get_opponent p) = count_pieces b (get_opponent p) - length (captured m)"
    unfolding count_pieces_occupied opp_eq card_Diff_subset [OF finite_imageI [OF finite_set] CPopp] cardCP ..
  have p_card: "count_pieces ?nb p = count_pieces b p
             - (if move_to m = move_from m then 1 else 0)"
  proof (cases "move_to m \<noteq> move_from m")
    case True
    then have "?t \<notin> occupied b p - {?f}" using t_free by blast
    then have "card (occupied ?nb p) = card (occupied b p - {?f}) + 1"
      using True unfolding p_eq by simp
    also have "\<dots> = card (occupied b p)"
      using f_p card_Diff1_less [of "occupied b p" ?f] by (simp add: card_Diff_singleton)
    finally show ?thesis using True by (simp add: count_pieces_occupied)
  next
    case False
    then show ?thesis using f_p unfolding count_pieces_occupied p_eq
      by (auto simp: card_Diff_singleton)
  qed
  show ?thesis using opp_card p_card by blast
qed

theorem material_accounting_witness:
  "wf_board cyclic_capture_board
   \<and> hd (getAllPlayerMoves cyclic_capture_board WHITE) \<in> set (getAllPlayerMoves cyclic_capture_board WHITE)
   \<and> count_pieces (newBoard (applyMove cyclic_capture_board (hd (getAllPlayerMoves cyclic_capture_board WHITE)))) WHITE = 0"
proof -
  let ?m = "hd (getAllPlayerMoves cyclic_capture_board WHITE)"
  have wf: "wf_board cyclic_capture_board"
    by (simp add: cyclic_capture_board_def board_of_def wf_board_def) code_simp
  have mem: "?m \<in> set (getAllPlayerMoves cyclic_capture_board WHITE)"
    by (simp add: cyclic_capture_board_def board_of_def) code_simp
  have cyc: "move_to ?m = move_from ?m" "count_pieces cyclic_capture_board WHITE = 1"
    by (simp_all add: cyclic_capture_board_def board_of_def) code_simp+
  show ?thesis using material_accounting [OF wf mem] wf mem cyc by simp
qed

section \<open>Where a legal move lands\<close>

text \<open>
  C13 (where a legal move lands). On an 8\<times>8 board, a legal move of \<open>p\<close> starts at a
  piece of \<open>p\<close> and lands on a square that was empty and is not among the captured
  squares, unless its capture chain comes back to its starting square; after
  \<open>applyMove\<close> the mover stands on the landing square, crowned exactly when a man
  reaches its promotion row, except for such a returning chain, which leaves the square
  empty.
\<close>

theorem legal_move_lands:
  assumes wf: "wf_board b" and legal: "m \<in> set (getAllPlayerMoves b p)"
  shows "\<exists>pc. Board.at b (move_from m) = Some pc \<and> player pc = p
           \<and> (Board.at b (move_to m) = None \<or> move_to m = move_from m)
           \<and> move_to m \<notin> set (captured m)
           \<and> Board.at (newBoard (applyMove b m)) (move_to m) =
                (if move_to m = move_from m then None
                 else Some (if promotes pc (move_to m) then pc\<lparr>ptype := KING\<rparr> else pc))"
proof -
  obtain pc where pc: "Board.at b (move_from m) = Some pc" "player pc = p"
    and inb: "is_within_board (row (move_to m)) (col (move_to m))"
    using legal_move_pieces [OF legal] by blast
  have land: "(Board.at b (move_to m) = None \<or> move_to m = move_from m) \<and> move_to m \<notin> set (captured m)"
    using legal_move_landing [OF legal] .
  have c: "cell b (row (move_to m)) (col (move_to m))" using wf inb by (simp add: cell_wf_board)
  have nc: "\<not> list_ex (\<lambda>q. row q = row (move_to m) \<and> col q = col (move_to m)
                          \<and> is_within_board (row (move_to m)) (col (move_to m))) (captured m)"
    using land by (auto simp: list_ex_iff dest: position_eqI)
  have "Board.at (newBoard (applyMove b m)) (move_to m) =
          (if move_to m = move_from m then None
           else Some (if promotes pc (move_to m) then pc\<lparr>ptype := KING\<rparr> else pc))"
    using applyMove_get_sq [OF pc(1), of "row (move_to m)" "col (move_to m)"] nc c
    by (auto dest: position_eqI)
  then show ?thesis using pc land by blast
qed

theorem legal_move_lands_witness:
  "wf_board cyclic_capture_board
   \<and> hd (getAllPlayerMoves cyclic_capture_board WHITE) \<in> set (getAllPlayerMoves cyclic_capture_board WHITE)
   \<and> Board.at (newBoard (applyMove cyclic_capture_board (hd (getAllPlayerMoves cyclic_capture_board WHITE))))
        (move_to (hd (getAllPlayerMoves cyclic_capture_board WHITE))) = None"
proof -
  let ?m = "hd (getAllPlayerMoves cyclic_capture_board WHITE)"
  have wf: "wf_board cyclic_capture_board"
    by (simp add: cyclic_capture_board_def board_of_def wf_board_def) code_simp
  have mem: "?m \<in> set (getAllPlayerMoves cyclic_capture_board WHITE)"
    by (simp add: cyclic_capture_board_def board_of_def) code_simp
  have cyc: "move_to ?m = move_from ?m"
    by (simp add: cyclic_capture_board_def board_of_def) code_simp
  show ?thesis using legal_move_lands [OF wf mem] wf mem cyc by auto
qed

end
