(* ===== verification/Placement.thy ===== *)
theory Placement
  imports GameScreen Material
begin

text \<open>
  Two facts about where pieces are, kept by every handler of
  \<open>src/src/screens/GameScreen.tsx\<close> beyond the controller invariant \<open>game_inv\<close>: every
  board of the history has its pieces on the dark squares (\<open>(row + col) mod 2 = 1\<close>,
  the squares \<open>GameBoard\<close> draws as playable), because every move is a diagonal step or
  a chain of diagonal jumps; and the selected square holds a piece of the side to move.
\<close>

section \<open>Definitions\<close>

definition dark_board :: "board \<Rightarrow> bool" where
  "dark_board b \<longleftrightarrow> (\<forall>r c pc. get_sq b r c = Some pc \<longrightarrow> odd (r + c))"

definition sel_ok :: "game_state \<Rightarrow> bool" where
  "sel_ok s \<longleftrightarrow>
     (case selectedPiece s of
          None \<Rightarrow> validMoves s = []
      | Some p \<Rightarrow> (\<exists>pc. Board.at (board s) p = Some pc \<and> player pc = currentPlayer s)
                  \<and> (\<forall>m\<in>set (validMoves s). move_from m = p))"

definition placement_inv :: "game_state \<Rightarrow> bool" where
  "placement_inv s \<longleftrightarrow> (\<forall>b\<in>set (history s). dark_board b) \<and> sel_ok s"

section \<open>Moves keep the colour of their square\<close>

lemma legal_move_parity:
  "m \<in> set (getAllPlayerMoves b p) \<Longrightarrow>
   even (row (move_to m) + col (move_to m) + row (move_from m) + col (move_from m))"
proof (cases "findCaptureMoves b p = []")
  case True
  assume "m \<in> set (getAllPlayerMoves b p)"
  with True obtain pc where
    "(row (move_to m) - row (move_from m), col (move_to m) - col (move_from m)) \<in> set (directions pc)"
    using findStandardMoves_sound by (fastforce simp: getAllPlayerMoves_def)
  from directions_odd [OF this] show ?thesis by presburger
next
  case False
  assume "m \<in> set (getAllPlayerMoves b p)"
  with False have "m \<in> set (findCaptureMoves b p)" by (simp add: getAllPlayerMoves_def)
  then obtain pc where "m \<in> set (findPieceCaptureMovesRecursive b (move_from m) pc [])"
    using findCaptureMoves_chain by blast
  from chain_shape(1) [OF this]
  have "even (row (move_to m) - row (move_from m))" "even (col (move_to m) - col (move_from m))"
    by simp_all
  then show ?thesis by presburger
qed

section \<open>Boards keep their pieces on the dark squares\<close>

lemma dark_board_applyMove:
  assumes dark: "dark_board b" and legal: "m \<in> set (getAllPlayerMoves b p)"
  shows "dark_board (newBoard (applyMove b m))"
proof (cases "Board.at b (move_from m)")
  case None
  then show ?thesis using dark by (simp add: applyMove_def)
next
  case (Some pc)
  have "odd (row (move_from m) + col (move_from m))"
    using dark Some by (auto simp: dark_board_def)
  then have "odd (row (move_to m) + col (move_to m))"
    using legal_move_parity [OF legal] by presburger
  then show ?thesis
    using dark unfolding dark_board_def applyMove_get_sq [OF Some] by (auto split: if_splits)
qed

lemma dark_boardI:
  assumes "wf_board b" "list_all (\<lambda>(r, c). get_sq b r c = None \<or> odd (r + c)) board_positions"
  shows "dark_board b"
  unfolding dark_board_def
proof (intro allI impI)
  fix r c pc assume sq: "get_sq b r c = Some pc"
  then have "(r, c) \<in> set board_positions"
    using get_sq_Some_in_board [OF assms(1)] by (simp add: set_board_positions is_within_board_def)
  with assms(2) sq show "odd (r + c)" by (auto simp: list_all_iff)
qed

lemma dark_createInitialBoard: "dark_board createInitialBoard"
  by (rule dark_boardI) (simp, code_simp)

section \<open>Every handler keeps the placement invariant\<close>

lemma getValidMoves_from: "m \<in> set (getValidMoves b frm) \<Longrightarrow> move_from m = frm"
  by (auto simp: getValidMoves_def Let_def intro: position_eqI dest: stepMoves_from
           split: option.splits if_splits)

lemma chainedCaptures_from: "m' \<in> set (chainedCaptures nb p m) \<Longrightarrow> move_from m' = move_to m"
  by (auto simp: chainedCaptures_def intro: position_eqI)

lemma placement_performMove:
  assumes pl: "placement_inv s" and inv: "game_inv s"
    and legal: "m \<in> set (getAllPlayerMoves (board s) (currentPlayer s))"
  shows "placement_inv (performMove s m)"
proof -
  let ?nb = "newBoard (applyMove (board s) m)"
  let ?ch = "chainedCaptures ?nb (currentPlayer s) m"
  have "board s \<in> set (history s)" using inv by (auto simp: game_inv_def dest: last_in_set)
  then have "dark_board ?nb" using pl legal dark_board_applyMove by (auto simp: placement_inv_def)
  moreover have "\<exists>pc. Board.at ?nb (move_to m) = Some pc \<and> player pc = currentPlayer s" if "?ch \<noteq> []"
  proof -
    from that obtain m' where m': "m' \<in> set (findCaptureMoves ?nb (currentPlayer s))"
      and eq: "move_from m' = move_to m"
      by (auto simp: chainedCaptures_def filter_empty_conv intro: position_eqI)
    from findCaptureMoves_valid [OF m'] eq show ?thesis by auto
  qed
  ultimately show ?thesis
    using pl by (auto simp: placement_inv_def performMove_def sel_ok_def Let_def dest: chainedCaptures_from)
qed

lemma placement_click:
  assumes pl: "placement_inv s" and inv: "game_inv s"
  shows "placement_inv (handleSquareClick s r c)"
proof (cases "find (\<lambda>m. row (move_to m) = r \<and> col (move_to m) = c) (validMoves s)")
  case (Some m)
  then have "m \<in> set (getAllPlayerMoves (board s) (currentPlayer s))"
    using inv by (auto simp: game_inv_def dest!: find_Some_mem)
  then have "placement_inv (performMove s m)" by (rule placement_performMove [OF pl inv])
  then show ?thesis using pl Some by (simp add: handleSquareClick_def)
next
  case None
  then show ?thesis
    using pl by (auto simp: handleSquareClick_def placement_inv_def sel_ok_def
                     dest: getValidMoves_from split: option.splits)
qed

lemma placement_ai_timer:
  assumes pl: "placement_inv s" and inv: "game_inv s" and rnd: "0 \<le> rnd" "rnd < 1"
  shows "placement_inv (ai_timer s rnd)"
proof (cases "ai_due s \<and> difficulty s \<noteq> None")
  case True
  then obtain d where "ai_due s" "difficulty s = Some d" by auto
  from ai_timer_legal_move [OF this rnd] obtain m where
    m: "m \<in> set (getAllPlayerMoves (board s) AI_PLAYER)" and eq: "ai_timer s rnd = performMove s m"
    by auto
  have "currentPlayer s = AI_PLAYER" using \<open>ai_due s\<close> by (simp add: ai_due_def)
  with m eq show ?thesis using placement_performMove [OF pl inv] by simp
next
  case False
  then show ?thesis using pl by (auto simp: ai_timer_def)
qed

lemma placement_restart: "placement_inv (handleRestart s)"
  by (simp add: handleRestart_def placement_inv_def sel_ok_def dark_createInitialBoard)

lemma placement_undo: "placement_inv s \<Longrightarrow> placement_inv (handleUndo s)"
  by (auto simp: handleUndo_def placement_inv_def sel_ok_def Let_def placement_restart [unfolded placement_inv_def sel_ok_def]
           dest: in_set_takeD)

lemma placement_step:
  assumes "placement_inv s" "game_inv s" "valid_event e"
  shows "placement_inv (game_step s e)"
  using assms
  by (cases e)
     (auto simp: placement_click placement_ai_timer placement_restart placement_undo,
      auto simp: placement_inv_def sel_ok_def game_effect_def modal_timeout_def persist_prefs_def
                 Let_def split: option.splits)

lemma reachable_placement: "reachable s \<Longrightarrow> placement_inv s"
proof (induction rule: reachable.induct)
  case (start gm diff store)
  show ?case by (simp add: initialGameState_def placement_inv_def sel_ok_def dark_createInitialBoard)
next
  case (step s e)
  then show ?case using placement_step reachable_game_inv_aux by blast
qed

section \<open>The selection\<close>

text \<open>
  C9 (the selection and the highlighted moves agree). In every reachable screen state,
  with no selected square there are no highlighted moves; with a selected square, that
  square holds a piece of the side to move and every highlighted move starts there, so a
  click on a highlighted square always moves the selected piece.
\<close>

theorem selection_consistent:
  assumes "reachable s"
  shows "case selectedPiece s of
           None \<Rightarrow> validMoves s = []
         | Some p \<Rightarrow> (\<exists>pc. Board.at (board s) p = Some pc \<and> player pc = currentPlayer s)
                     \<and> (\<forall>m\<in>set (validMoves s). move_from m = p)"
  using reachable_placement [OF assms] by (simp add: placement_inv_def sel_ok_def)

theorem selection_consistent_witness:
  "reachable (game_step (initialGameState Two None Map.empty) (SquareClick 5 0))
   \<and> selectedPiece (game_step (initialGameState Two None Map.empty) (SquareClick 5 0))
       = Some \<lparr>row = 5, col = 0\<rparr>
   \<and> validMoves (game_step (initialGameState Two None Map.empty) (SquareClick 5 0)) \<noteq> []
   \<and> list_all (\<lambda>m. move_from m = \<lparr>row = 5, col = 0\<rparr>)
       (validMoves (game_step (initialGameState Two None Map.empty) (SquareClick 5 0)))
   \<and> (\<exists>pc. Board.at (board (game_step (initialGameState Two None Map.empty) (SquareClick 5 0)))
              \<lparr>row = 5, col = 0\<rparr> = Some pc
         \<and> player pc = currentPlayer (game_step (initialGameState Two None Map.empty) (SquareClick 5 0)))"
proof -
  let ?s = "game_step (initialGameState Two None Map.empty) (SquareClick 5 0)"
  have r: "reachable ?s" by (rule reachable.step [OF reachable.start]) simp
  have sel: "selectedPiece ?s = Some \<lparr>row = 5, col = 0\<rparr>" "validMoves ?s \<noteq> []"
    by (simp_all add: handleSquareClick_def initialGameState_def isPlayerTurn_def) code_simp+
  have "(\<exists>pc. Board.at (board ?s) \<lparr>row = 5, col = 0\<rparr> = Some pc \<and> player pc = currentPlayer ?s)
        \<and> (\<forall>m\<in>set (validMoves ?s). move_from m = \<lparr>row = 5, col = 0\<rparr>)"
    using selection_consistent [OF r] sel(1) by simp
  then show ?thesis using r sel by (simp add: list_all_iff)
qed

end
