(* ===== verification/Screen.thy ===== *)
theory Screen
  imports App View Placement
begin

text \<open>
  What the game screen shows and what its buttons do, as data. \<open>GamePiece.tsx\<close> draws
  a piece (\<open>gamePiece\<close>); \<open>GameControls.tsx\<close> is a row of five buttons over callbacks
  (\<open>gameControls\<close>, polymorphic in the callback type); \<open>GameOverModal.tsx\<close> has a backdrop,
  a close button and three action buttons (\<open>modalButtons\<close>); \<open>GameScreen.tsx\<close> composes
  them with its header, turn banner and counters (\<open>screenView\<close>), passing
  \<open>app_event\<close>s as the callbacks: a screen handler is \<open>ScreenEvent e\<close>, the
  \<open>onBackToMenu\<close> prop is \<open>BackToMenu\<close>. A button fires its \<open>onClick\<close> when it is not
  \<open>disabled\<close> (\<open>press\<close>). Icons are named by their \<open>lucide-react\<close> component; colours,
  sizes and animations are not modelled.
\<close>

section \<open>Pieces\<close>

record piece_view =
  isWhite :: bool
  hasCrown :: bool
  lifted :: bool

text \<open>\<open>GamePiece\<close>: nothing for an empty square; the colour, the crown of a king, and the
  raised look (\<open>scale 1.05, y -2\<close>) of the selected piece.\<close>

definition gamePiece :: "square \<Rightarrow> bool \<Rightarrow> piece_view option" where
  "gamePiece sq sel =
     (case sq of
        None \<Rightarrow> None
      | Some pc \<Rightarrow> Some \<lparr>isWhite = (player pc = WHITE), hasCrown = (ptype pc = KING), lifted = sel\<rparr>)"

text \<open>\<open>{square && <GamePiece piece={square} isSelected={isSelected} />}\<close> on every square.\<close>

definition drawnPieces :: "square_view list list \<Rightarrow> piece_view option list list" where
  "drawnPieces rows = map (map (\<lambda>sv. gamePiece (shownPiece sv) (isSelected sv))) rows"

section \<open>Buttons\<close>

record 'e button =
  btnLabel :: string
  btnIcon :: string
  btnDisabled :: bool
  btnHighlighted :: bool
  btnOnClick :: "'e option"

definition press :: "'e button \<Rightarrow> 'e option" where
  "press bt = (if btnDisabled bt then None else btnOnClick bt)"

text \<open>\<open>GameControls\<close>: Undo (disabled without \<open>canUndo\<close>), Hints and Paths (highlighted
  when on), Pause/Resume, Reset.\<close>

definition gameControls ::
  "'e \<Rightarrow> 'e \<Rightarrow> 'e \<Rightarrow> 'e \<Rightarrow> 'e \<Rightarrow> bool \<Rightarrow> bool \<Rightarrow> bool \<Rightarrow> bool \<Rightarrow> 'e button list" where
  "gameControls onRestart onUndo onPause onTogglePaths onToggleSuggestions
                isPaused' canUndo' isPathHighlightingEnabled isSuggestionsEnabled =
     [\<lparr>btnLabel = ''Undo'', btnIcon = ''Undo'', btnDisabled = \<not> canUndo', btnHighlighted = False,
       btnOnClick = Some onUndo\<rparr>,
      \<lparr>btnLabel = ''Hints'', btnIcon = ''Lightbulb'', btnDisabled = False,
       btnHighlighted = isSuggestionsEnabled, btnOnClick = Some onToggleSuggestions\<rparr>,
      \<lparr>btnLabel = ''Paths'', btnIcon = ''Footprints'', btnDisabled = False,
       btnHighlighted = isPathHighlightingEnabled, btnOnClick = Some onTogglePaths\<rparr>,
      \<lparr>btnLabel = (if isPaused' then ''Resume'' else ''Pause''),
       btnIcon = (if isPaused' then ''Play'' else ''Pause''), btnDisabled = False,
       btnHighlighted = False, btnOnClick = Some onPause\<rparr>,
      \<lparr>btnLabel = ''Reset'', btnIcon = ''RotateCcw'', btnDisabled = False, btnHighlighted = False,
       btnOnClick = Some onRestart\<rparr>]"

text \<open>The game-over dialog: the backdrop and the close button dismiss it, PLAY AGAIN
  restarts, MENU leaves, STATS has no handler.\<close>

definition modalButtons :: "'e \<Rightarrow> 'e \<Rightarrow> 'e \<Rightarrow> 'e button list" where
  "modalButtons onRestart onBackToMenu onDismiss =
     [\<lparr>btnLabel = '''', btnIcon = '''', btnDisabled = False, btnHighlighted = False,
       btnOnClick = Some onDismiss\<rparr>,
      \<lparr>btnLabel = '''', btnIcon = ''X'', btnDisabled = False, btnHighlighted = False,
       btnOnClick = Some onDismiss\<rparr>,
      \<lparr>btnLabel = ''PLAY AGAIN'', btnIcon = ''RefreshCcw'', btnDisabled = False,
       btnHighlighted = True, btnOnClick = Some onRestart\<rparr>,
      \<lparr>btnLabel = ''MENU'', btnIcon = ''Home'', btnDisabled = False, btnHighlighted = False,
       btnOnClick = Some onBackToMenu\<rparr>,
      \<lparr>btnLabel = ''STATS'', btnIcon = ''BarChart2'', btnDisabled = False, btnHighlighted = False,
       btnOnClick = None\<rparr>]"

text \<open>The screen's header: the menu button and the mute toggle.\<close>

definition headerButtons :: "'e \<Rightarrow> 'e \<Rightarrow> bool \<Rightarrow> 'e button list" where
  "headerButtons onBackToMenu onToggleMute muted =
     [\<lparr>btnLabel = ''Menu'', btnIcon = ''ArrowLeft'', btnDisabled = False, btnHighlighted = False,
       btnOnClick = Some onBackToMenu\<rparr>,
      \<lparr>btnLabel = '''', btnIcon = (if muted then ''VolumeX'' else ''Volume2''), btnDisabled = False,
       btnHighlighted = False, btnOnClick = Some onToggleMute\<rparr>]"

section \<open>The screen\<close>

record screen_view =
  header :: "app_event button list"
  turnLabel :: string
  mustCapture :: bool
  boardView :: "square_view list list"
  pieces :: "piece_view option list list"
  controls :: "app_event button list"
  movesLabel :: nat
  modeLabel :: string
  modal :: "modal_content option"
  dialogButtons :: "app_event button list"

text \<open>\<open>GameScreen\<close>'s render: header, turn banner with \<open>Must Capture!\<close>, board, controls,
  counters, and the game-over dialog, whose buttons exist only while it is drawn.\<close>

definition screenView :: "game_state \<Rightarrow> screen_view" where
  "screenView s =
     (let bv = screenBoardView s;
          dlg = gameOverModal (showGameOverModal s) (gameResult s)
      in \<lparr>header = headerButtons BackToMenu (ScreenEvent ToggleMute) (isMuted s),
          turnLabel = getTurnIndicator s,
          mustCapture = (mandatoryCaptures s \<noteq> [] \<and> gameWinner s = None),
          boardView = bv,
          pieces = drawnPieces bv,
          controls = gameControls (ScreenEvent Restart) (ScreenEvent Undo) (ScreenEvent TogglePause)
                       (ScreenEvent TogglePaths) (ScreenEvent ToggleSuggestions)
                       (isPaused s) (canUndo s) (showPlayerPaths s) (enableSuggestions s),
          movesLabel = movesCount s,
          modeLabel = (if gameMode s = Single then ''AI'' else ''PvP''),
          modal = dlg,
          dialogButtons = (if dlg = None then []
                           else modalButtons (ScreenEvent Restart) BackToMenu (ScreenEvent DismissModal))\<rparr>)"

definition screenButtons :: "screen_view \<Rightarrow> app_event button list" where
  "screenButtons v = header v @ controls v @ dialogButtons v"

section \<open>Lemmas\<close>

lemma mem_renderBoard:
  assumes "rw \<in> set (renderBoard b sel sug pth turn)" "sv \<in> set rw"
  shows "\<exists>i j. i < length b \<and> j < length (b ! i)
           \<and> sv = square_view_of sel sug pth turn (int i) (int j) (b ! i ! j)"
  using assms by (fastforce simp: renderBoard_def in_set_enumerate_eq)

lemma square_view_of_fields:
  "shownPiece (square_view_of sel sug pth turn r c sq) = sq"
  "playable (square_view_of sel sug pth turn r c sq) \<longleftrightarrow> odd (r + c)"
  "isSelected (square_view_of sel sug pth turn r c sq) \<longleftrightarrow> sel = Some \<lparr>row = r, col = c\<rparr>"
proof -
  have "(r + c) mod 2 = 1 \<longleftrightarrow> odd (r + c)" by presburger
  then show "shownPiece (square_view_of sel sug pth turn r c sq) = sq"
    "playable (square_view_of sel sug pth turn r c sq) \<longleftrightarrow> odd (r + c)"
    by (simp_all add: square_view_of_def Let_def)
  show "isSelected (square_view_of sel sug pth turn r c sq) \<longleftrightarrow> sel = Some \<lparr>row = r, col = c\<rparr>"
    by (cases sel) (auto simp: square_view_of_def Let_def intro: position_eqI)
qed

lemma renderBoard_shape:
  "wf_board b \<Longrightarrow> length (renderBoard b sel sug pth turn) = 8
    \<and> (\<forall>rw\<in>set (renderBoard b sel sug pth turn). length rw = 8)"
  by (auto simp: renderBoard_def wf_board_def in_set_enumerate_eq)

lemma boardView_screenView [simp]: "boardView (screenView s) = screenBoardView s"
  by (simp only: screenView_def Let_def screen_view.simps)

lemma pieces_screenView [simp]: "pieces (screenView s) = drawnPieces (screenBoardView s)"
  by (simp only: screenView_def Let_def screen_view.simps)

lemma screen_square:
  assumes inv: "game_inv s" and rw: "rw \<in> set (boardView (screenView s))" and sv: "sv \<in> set rw"
  shows "\<exists>i j. i < 8 \<and> j < 8 \<and> shownPiece sv = get_sq (board s) (int i) (int j)
           \<and> playable sv = odd (int i + int j)
           \<and> (isSelected sv \<longleftrightarrow> selectedPiece s = Some \<lparr>row = int i, col = int j\<rparr>)"
proof -
  have wf: "wf_board (board s)" using inv by (rule game_inv_board_wf)
  from mem_renderBoard [OF rw [unfolded boardView_screenView screenBoardView_def] sv]
  obtain i j where ij: "i < length (board s)" "j < length (board s ! i)"
    and eq: "sv = square_view_of (selectedPiece s) (suggestedMoves s) (playerPaths s)
                   (isPlayerTurn s \<and> gameWinner s = None) (int i) (int j) (board s ! i ! j)"
    by blast
  have "i < 8" "j < 8" using ij wf by (auto simp: wf_board_def)
  moreover have "get_sq (board s) (int i) (int j) = board s ! i ! j"
    using get_sq_wf_nth [OF wf \<open>i < 8\<close> \<open>j < 8\<close>] by simp
  ultimately show ?thesis
    by (intro exI [of _ i] exI [of _ j]) (simp add: eq square_view_of_fields)
qed

lemma screenButtons_screenView:
  "screenButtons (screenView s) =
     headerButtons BackToMenu (ScreenEvent ToggleMute) (isMuted s)
     @ gameControls (ScreenEvent Restart) (ScreenEvent Undo) (ScreenEvent TogglePause)
         (ScreenEvent TogglePaths) (ScreenEvent ToggleSuggestions)
         (isPaused s) (canUndo s) (showPlayerPaths s) (enableSuggestions s)
     @ (if gameOverModal (showGameOverModal s) (gameResult s) = None then []
        else modalButtons (ScreenEvent Restart) BackToMenu (ScreenEvent DismissModal))"
  by (simp only: screenButtons_def screenView_def Let_def screen_view.simps)

lemma screen_button_events:
  assumes "bt \<in> set (screenButtons (screenView s))" "press bt = Some e"
    "btnLabel bt \<notin> {''Reset'', ''PLAY AGAIN'', ''Menu'', ''MENU''}"
  shows "e \<in> ScreenEvent ` {Undo, ToggleSuggestions, TogglePaths, TogglePause, ToggleMute, DismissModal}"
  using assms(2,3) assms(1) [unfolded screenButtons_screenView]
  unfolding headerButtons_def gameControls_def modalButtons_def press_def
  by (auto split: if_splits)


lemma game_over_frozen:
  assumes "gameWinner s \<noteq> None"
    "ge \<in> {Undo, ToggleSuggestions, TogglePaths, TogglePause, ToggleMute, DismissModal}"
  shows "board (game_step s ge) = board s \<and> history (game_step s ge) = history s
         \<and> currentPlayer (game_step s ge) = currentPlayer s
         \<and> gameWinner (game_step s ge) = gameWinner s \<and> gameResult (game_step s ge) = gameResult s"
  using assms by (auto simp: handleUndo_def)

section \<open>Properties of the screen\<close>

text \<open>
  C12 (a finished game cannot be changed from the screen). When the game screen shows a
  finished game, pressing any button it draws (header, controls, game-over dialog) other
  than Reset, PLAY AGAIN and the two menu buttons keeps the screen mounted and leaves
  the board, the history, the side to move, the winner and the result as they were:
  Undo is disabled, and the other buttons only toggle settings or close the dialog.
\<close>

theorem game_over_buttons:
  assumes playing: "appGameState a = PlayingScreen" and over: "gameWinner (screen a) \<noteq> None"
    and bt: "bt \<in> set (screenButtons (screenView (screen a)))" and pr: "press bt = Some e"
    and lbl: "btnLabel bt \<notin> {''Reset'', ''PLAY AGAIN'', ''Menu'', ''MENU''}"
  shows "appGameState (app_step a e) = PlayingScreen
         \<and> board (screen (app_step a e)) = board (screen a)
         \<and> history (screen (app_step a e)) = history (screen a)
         \<and> currentPlayer (screen (app_step a e)) = currentPlayer (screen a)
         \<and> gameWinner (screen (app_step a e)) = gameWinner (screen a)
         \<and> gameResult (screen (app_step a e)) = gameResult (screen a)"
proof -
  from screen_button_events [OF bt pr lbl] obtain ge where e: "e = ScreenEvent ge"
    and ge: "ge \<in> {Undo, ToggleSuggestions, TogglePaths, TogglePause, ToggleMute, DismissModal}"
    by blast
  have "app_step a e = a\<lparr>screen := game_step (screen a) ge\<rparr>"
    using playing e by (simp add: app_step_def)
  then show ?thesis using game_over_frozen [OF over ge] playing by simp
qed

theorem game_over_buttons_witness:
  "appGameState ((handleSelectMode (initialAppState Map.empty) Two None)
        \<lparr>screen := (initialGameState Two None Map.empty)\<lparr>gameWinner := Some WHITE\<rparr>\<rparr>) = PlayingScreen
   \<and> board (screen (app_step ((handleSelectMode (initialAppState Map.empty) Two None)
        \<lparr>screen := (initialGameState Two None Map.empty)\<lparr>gameWinner := Some WHITE\<rparr>\<rparr>)
        (ScreenEvent TogglePause))) = createInitialBoard"
proof -
  define a where "a = (handleSelectMode (initialAppState Map.empty) Two None)
        \<lparr>screen := (initialGameState Two None Map.empty)\<lparr>gameWinner := Some WHITE\<rparr>\<rparr>"
  define bt :: "app_event button" where "bt = \<lparr>btnLabel = ''Pause'', btnIcon = ''Pause'',
        btnDisabled = False, btnHighlighted = False, btnOnClick = Some (ScreenEvent TogglePause)\<rparr>"
  have p: "appGameState a = PlayingScreen" by (simp add: a_def handleSelectMode_def)
  have w: "gameWinner (screen a) \<noteq> None" by (simp add: a_def)
  have b: "bt \<in> set (screenButtons (screenView (screen a)))"
    unfolding screenButtons_screenView by (simp add: a_def bt_def gameControls_def initialGameState_def)
  have pr: "press bt = Some (ScreenEvent TogglePause)" by (simp add: bt_def press_def)
  have l: "btnLabel bt \<notin> {''Reset'', ''PLAY AGAIN'', ''Menu'', ''MENU''}" by (simp add: bt_def)
  have "board (screen a) = createInitialBoard" by (simp add: a_def initialGameState_def)
  then show ?thesis using game_over_buttons [OF p w b pr l] p by (simp add: a_def)
qed


text \<open>
  C40 (the board the screen draws is well typed). In every reachable screen state the
  board view has 8 rows of 8 squares, every piece is drawn on a playable (dark) square,
  and a piece drawn raised as selected is a piece of the side to move: \<open>GamePiece\<close>
  draws it white exactly when White is to move.
\<close>

theorem screen_view_typed:
  assumes "reachable s"
  shows "length (boardView (screenView s)) = 8
         \<and> (\<forall>rw\<in>set (boardView (screenView s)).
              length rw = 8 \<and> (\<forall>sv\<in>set rw. shownPiece sv \<noteq> None \<longrightarrow> playable sv))
         \<and> (\<forall>prw\<in>set (pieces (screenView s)). \<forall>pv\<in>set prw.
              case pv of None \<Rightarrow> True | Some v \<Rightarrow> lifted v \<longrightarrow> isWhite v = (currentPlayer s = WHITE))"
proof -
  have inv: "game_inv s" using assms by (rule reachable_game_inv_aux)
  have pl: "placement_inv s" using assms by (rule reachable_placement)
  have wf: "wf_board (board s)" using inv by (rule game_inv_board_wf)
  have dark: "dark_board (board s)"
    using inv pl by (auto simp: placement_inv_def game_inv_def dest: last_in_set)
  have shape: "length (boardView (screenView s)) = 8 \<and> (\<forall>rw\<in>set (boardView (screenView s)). length rw = 8)"
    using renderBoard_shape [OF wf] by (simp add: screenBoardView_def)
  have sq: "shownPiece sv \<noteq> None \<longrightarrow> playable sv"
    if rwin: "rw \<in> set (boardView (screenView s))" and svin: "sv \<in> set rw" for rw sv
  proof
    assume np: "shownPiece sv \<noteq> None"
    obtain i j where sp: "shownPiece sv = get_sq (board s) (int i) (int j)"
      and pl_eq: "playable sv = odd (int i + int j)"
      using screen_square [OF inv rwin svin] by blast
    from np sp obtain pc where "get_sq (board s) (int i) (int j) = Some pc" by auto
    with dark have "odd (int i + int j)" unfolding dark_board_def by blast
    with pl_eq show "playable sv" by simp
  qed
  have lift: "case pv of None \<Rightarrow> True | Some v \<Rightarrow> lifted v \<longrightarrow> isWhite v = (currentPlayer s = WHITE)"
    if "prw \<in> set (pieces (screenView s))" "pv \<in> set prw" for prw pv
  proof -
    from that obtain rw sv where rw: "rw \<in> set (boardView (screenView s))" "sv \<in> set rw"
      and pv: "pv = gamePiece (shownPiece sv) (isSelected sv)"
      by (auto simp: drawnPieces_def)
    from screen_square [OF inv rw] obtain i j where
      sp: "shownPiece sv = get_sq (board s) (int i) (int j)"
      and sel: "isSelected sv \<longleftrightarrow> selectedPiece s = Some \<lparr>row = int i, col = int j\<rparr>"
      by blast
    show ?thesis
      using pl pv sp sel by (auto simp: placement_inv_def sel_ok_def gamePiece_def split: option.splits)
  qed
  show ?thesis using shape sq lift by blast
qed

theorem screen_view_typed_witness:
  "reachable (initialGameState Two None Map.empty)
   \<and> length (boardView (screenView (initialGameState Two None Map.empty))) = 8"
  using screen_view_typed [OF reachable.start [of Two None Map.empty]] reachable.start by blast

end
