(* ===== verification/AppView.thy ===== *)
theory AppView
  imports Screen
begin

text \<open>
  What the application draws, as data: the buttons of \<open>src/src/screens/MainMenu.tsx\<close>
  (the first panel, or the difficulty list and its back button) and \<open>App.tsx\<close>'s switch
  between the menu and the game screen. The lemmas show that \<open>menu_step\<close>'s guards are
  exactly the buttons the menu draws, and that pressing any drawn button keeps the
  application among its reachable states, so the properties proved of reachable states
  hold of every state a user reaches by pressing buttons.
\<close>

section \<open>Definitions\<close>

definition difficulty_icon :: "difficulty \<Rightarrow> string" where
  "difficulty_icon d = (case d of Easy \<Rightarrow> ''Zap'' | Medium \<Rightarrow> ''Brain'' | Hard \<Rightarrow> ''ShieldAlert'')"

text \<open>\<open>{!showDifficulty ? (Single Player, Multiplayer) : (difficulties.map(...), Back)}\<close>\<close>

definition mainMenuButtons :: "bool \<Rightarrow> app_event button list" where
  "mainMenuButtons showDiff =
     (if \<not> showDiff
      then [\<lparr>btnLabel = ''Single Player'', btnIcon = ''ChevronRight'', btnDisabled = False,
              btnHighlighted = True, btnOnClick = Some ChooseSinglePlayer\<rparr>,
            \<lparr>btnLabel = ''Multiplayer'', btnIcon = '''', btnDisabled = False,
              btnHighlighted = False, btnOnClick = Some ChooseTwoPlayer\<rparr>]
      else map (\<lambda>(d, lbl, desc). \<lparr>btnLabel = lbl, btnIcon = difficulty_icon d, btnDisabled = False,
                                  btnHighlighted = False, btnOnClick = Some (ChooseDifficulty d)\<rparr>)
             difficulties
           @ [\<lparr>btnLabel = ''Back'', btnIcon = '''', btnDisabled = False, btnHighlighted = False,
                btnOnClick = Some DifficultyBack\<rparr>])"

datatype app_view = MenuView "app_event button list" | GameView screen_view

definition appView :: "app_state \<Rightarrow> app_view" where
  "appView a =
     (case appGameState a of
        MenuScreen \<Rightarrow> MenuView (mainMenuButtons (showDifficulty a))
      | PlayingScreen \<Rightarrow> GameView (screenView (screen a)))"

fun viewButtons :: "app_view \<Rightarrow> app_event button list" where
  "viewButtons (MenuView bs) = bs"
| "viewButtons (GameView v) = screenButtons v"

section \<open>Lemmas\<close>

lemma menu_press_iff:
  "(\<exists>bt\<in>set (mainMenuButtons sd). press bt = Some e) \<longleftrightarrow>
   (if sd then (\<exists>d. e = ChooseDifficulty d) \<or> e = DifficultyBack
    else e = ChooseSinglePlayer \<or> e = ChooseTwoPlayer)"
proof -
  have "(\<exists>bt\<in>set (map (\<lambda>(d, lbl, desc). \<lparr>btnLabel = lbl, btnIcon = difficulty_icon d,
            btnDisabled = False, btnHighlighted = False, btnOnClick = Some (ChooseDifficulty d)\<rparr>)
            difficulties). press bt = Some e) \<longleftrightarrow> (\<exists>d. e = ChooseDifficulty d)"
    by (auto simp: difficulties_def press_def intro: difficulty.exhaust) (metis difficulty.exhaust)
  then show ?thesis by (auto simp: mainMenuButtons_def press_def)
qed


lemma screen_press_valid:
  assumes "bt \<in> set (screenButtons (screenView s))" "press bt = Some e"
  shows "app_valid_event e"
  using assms(2) assms(1) [unfolded screenButtons_screenView]
  unfolding headerButtons_def gameControls_def modalButtons_def press_def
  by (auto split: if_splits)

lemma press_app_reachable:
  assumes "app_reachable a" "bt \<in> set (viewButtons (appView a))" "press bt = Some e"
  shows "app_reachable (app_step a e)"
proof -
  have "app_valid_event e"
  proof (cases "appGameState a")
    case MenuScreen
    then have "if showDifficulty a then (\<exists>d. e = ChooseDifficulty d) \<or> e = DifficultyBack
               else e = ChooseSinglePlayer \<or> e = ChooseTwoPlayer"
      using assms(2,3) menu_press_iff [of "showDifficulty a" e] by (auto simp: appView_def)
    then show ?thesis by (auto split: if_splits)
  next
    case PlayingScreen
    then have "bt \<in> set (screenButtons (screenView (screen a)))"
      using assms(2) by (simp add: appView_def)
    then show ?thesis using assms(3) by (rule screen_press_valid)
  qed
  with assms(1) show ?thesis by (rule app_reachable.app_next)
qed


end
