(* ===== verification/CaptureReturns.thy ===== *)
theory CaptureReturns
  imports MoveGen "HOL-Library.Monad_Syntax"
begin

text \<open>
  The recursion of \<open>findPieceCaptureMovesRecursive\<close> (\<open>src/src/game/logic.ts\<close>) read
  as code that may not return. The source has no fuel and no depth bound: it returns
  because every call is made on a copy of the board with the jumped piece removed.
  Here the same lines are a \<^theory_text>\<open>partial_function (option)\<close>, \<open>None\<close> standing for a
  call that does not return, with the loop over the directions and the recursive call
  as one function; the theorem of this theory is that it always returns, with the value
  of the total model of \<open>MoveGen\<close>.
\<close>

section \<open>The search as a possibly diverging function\<close>

partial_function (option) captureLoop_opt ::
  "board \<Rightarrow> position \<Rightarrow> piece \<Rightarrow> position list \<Rightarrow> (int \<times> int) list \<Rightarrow> move list option"
where
  "captureLoop_opt b frm pc cs ds =
     (case ds of
        [] \<Rightarrow> Some []
      | d # ds' \<Rightarrow>
          (let opp = \<lparr>row = row frm + fst d, col = col frm + snd d\<rparr>;
               land = \<lparr>row = row frm + 2 * fst d, col = col frm + 2 * snd d\<rparr>
           in do {
             here \<leftarrow>
               (if is_within_board (row land) (col land) \<and> at b land = None
                   \<and> sq_has (is_enemy_of pc) (at b opp)
                   \<and> \<not> list_ex (\<lambda>p. row p = row opp \<and> col p = col opp) cs
                then do {
                  chained \<leftarrow> captureLoop_opt (put (put (put b land (Some pc)) frm None) opp None)
                                land pc (cs @ [opp]) (directions pc);
                  Some (if chained \<noteq> [] then map (\<lambda>m. m\<lparr>move_from := frm\<rparr>) chained
                        else [\<lparr>move_from = frm, move_to = land, captured = cs @ [opp]\<rparr>])
                }
                else Some []);
             rest \<leftarrow> captureLoop_opt b frm pc cs ds';
             Some (here @ rest)
           }))"

definition findPieceCaptureMovesRecursive_opt ::
  "board \<Rightarrow> position \<Rightarrow> piece \<Rightarrow> position list \<Rightarrow> move list option" where
  "findPieceCaptureMovesRecursive_opt b frm pc cs = captureLoop_opt b frm pc cs (directions pc)"

section \<open>It returns\<close>

lemma captureLoop_opt_total:
  shows "captureLoop_opt b frm pc cs (directions pc) = Some (findPieceCaptureMovesRecursive b frm pc cs)"
    and "captureLoop_opt b frm pc cs ds = Some (captureDirections b frm pc cs ds)"
proof (induction b frm pc cs and b frm pc cs ds
       rule: findPieceCaptureMovesRecursive_captureDirections.induct)
  case (1 b frm pc cs)
  then show ?case by simp
next
  case (2 b frm pc cs)
  then show ?case by (simp add: captureLoop_opt.simps)
next
  case (3 b frm pc cs dr dc ds)
  then show ?case
    by (subst captureLoop_opt.simps) (simp add: Let_def del: findPieceCaptureMovesRecursive.simps)
qed

section \<open>Termination of the capture search\<close>

text \<open>
  C39 (the capture search returns). For every board, square, piece and list of squares
  already captured, the source's recursion returns, and what it returns is the list of
  chains of the total model: a call never runs forever, whatever the board holds.
\<close>

theorem capture_search_returns:
  "findPieceCaptureMovesRecursive_opt b frm pc cs = Some (findPieceCaptureMovesRecursive b frm pc cs)"
  unfolding findPieceCaptureMovesRecursive_opt_def by (rule captureLoop_opt_total(1))

end
