(* ===== verification/MoveErrors.thy ===== *)
theory MoveErrors
  imports GameScreen Material
begin

text \<open>
  The error path of a move. \<open>applyMove\<close> (\<open>src/src/game/logic.ts\<close>) writes with plain
  array assignments \<open>newBoard[r][c] = v\<close>; in JavaScript such a write throws a
  \<open>TypeError\<close> when \<open>newBoard[r]\<close> is \<open>undefined\<close>, and a write at a column that is not
  an index of the row makes the row longer or adds a non-index property, neither of
  which the model's boards represent (\<open>OutsideModel\<close>). \<open>performMove\<close>
  (\<open>src/src/screens/GameScreen.tsx\<close>) wraps the move in \<open>try/catch\<close> and only logs the
  error. Here the writes return \<open>js_error + board\<close>, \<open>applyMove_js\<close> and
  \<open>performMove_js\<close> follow the source with these error values, and the lemmas show
  that a legal move never takes the error path, so \<open>applyMove\<close> and \<open>performMove\<close> of
  the other theories are what the source computes on every move it performs.
\<close>

section \<open>Definitions\<close>

datatype js_error = TypeError | OutsideModel

text \<open>\<open>board[r][c] = v\<close>.\<close>

definition js_write :: "board \<Rightarrow> int \<Rightarrow> int \<Rightarrow> square \<Rightarrow> js_error + board" where
  "js_write b r c v =
     (if \<not> (0 \<le> r \<and> nat r < length b) then Inl TypeError
      else if cell b r c then Inr (set_sq b r c v)
      else Inl OutsideModel)"

text \<open>\<open>for (const capturedPos of move.captured) if (isWithinBoard(...)) newBoard[..][..] = null\<close>\<close>

fun clear_captured_js :: "position list \<Rightarrow> board \<Rightarrow> js_error + board" where
  "clear_captured_js [] b = Inr b"
| "clear_captured_js (p # ps) b =
     (if is_within_board (row p) (col p)
      then (case js_write b (row p) (col p) None of
              Inl e \<Rightarrow> Inl e
            | Inr b' \<Rightarrow> clear_captured_js ps b')
      else clear_captured_js ps b)"

definition applyMove_js :: "board \<Rightarrow> move \<Rightarrow> js_error + apply_move_result" where
  "applyMove_js b m =
     (case Board.at b (move_from m) of
        None \<Rightarrow> Inr \<lparr>newBoard = b, promoted = False\<rparr>
      | Some pc \<Rightarrow>
          (case js_write b (row (move_to m)) (col (move_to m)) (Some pc) of
             Inl e \<Rightarrow> Inl e
           | Inr b1 \<Rightarrow>
               (case js_write b1 (row (move_from m)) (col (move_from m)) None of
                  Inl e \<Rightarrow> Inl e
                | Inr b2 \<Rightarrow>
                    (case clear_captured_js (captured m) b2 of
                       Inl e \<Rightarrow> Inl e
                     | Inr nb \<Rightarrow>
                         (if promotes pc (move_to m)
                          then (case Board.at nb (move_to m) of
                                  Some q \<Rightarrow> Inr \<lparr>newBoard = put nb (move_to m) (Some (q\<lparr>ptype := KING\<rparr>)),
                                                promoted = True\<rparr>
                                | None \<Rightarrow> Inr \<lparr>newBoard = nb, promoted = False\<rparr>)
                          else Inr \<lparr>newBoard = nb, promoted = False\<rparr>)))))"

text \<open>\<open>performMove\<close> with its \<open>catch\<close>: an error leaves every state hook as it was.\<close>

definition performMove_js :: "game_state \<Rightarrow> move \<Rightarrow> game_state" where
  "performMove_js s mv =
     (case applyMove_js (board s) mv of
        Inl _ \<Rightarrow> s
      | Inr res \<Rightarrow>
          (let nb = newBoard res;
               nextPlayer = (if currentPlayer s = PLAYER_ONE then PLAYER_TWO else PLAYER_ONE);
               chained = chainedCaptures nb (currentPlayer s) mv
           in if captured mv \<noteq> [] \<and> chained \<noteq> []
              then s\<lparr>board := nb, history := history s @ [nb], selectedPiece := Some (move_to mv),
                     validMoves := chained, mandatoryCaptures := chained\<rparr>
              else s\<lparr>board := nb, history := history s @ [nb], currentPlayer := nextPlayer,
                     selectedPiece := None, validMoves := []\<rparr>))"

section \<open>Lemmas\<close>

lemma js_write_cell: "cell b r c \<Longrightarrow> js_write b r c v = Inr (set_sq b r c v)"
  by (simp add: js_write_def cell_def)

lemma js_write_Inr: "js_write b r c v = Inr b' \<Longrightarrow> b' = set_sq b r c v"
  by (auto simp: js_write_def split: if_splits)

lemma clear_captured_js_Inr:
  "clear_captured_js ps b = Inr b' \<Longrightarrow> b' = clear_captured ps b"
proof (induction ps arbitrary: b)
  case Nil
  then show ?case by (simp add: clear_captured_def)
next
  case (Cons p ps)
  then show ?case
    by (auto simp: clear_captured_def split: if_splits sum.splits dest!: js_write_Inr)
qed

lemma clear_captured_js_wf:
  "wf_board b \<Longrightarrow> clear_captured_js ps b = Inr (clear_captured ps b)"
proof (induction ps arbitrary: b)
  case Nil
  then show ?case by (simp add: clear_captured_def)
next
  case (Cons p ps)
  have "is_within_board (row p) (col p) \<Longrightarrow> cell b (row p) (col p)"
    using Cons.prems by (simp add: cell_wf_board)
  then show ?case
    using Cons by (simp add: clear_captured_def js_write_cell)
qed

lemma applyMove_js_Inr:
  assumes "applyMove_js b m = Inr r"
  shows "r = applyMove b m"
  using assms
  by (auto simp: applyMove_js_def applyMove_def Let_def split: option.splits sum.splits if_splits
           dest!: js_write_Inr clear_captured_js_Inr)

lemma applyMove_js_in_board:
  assumes wf: "wf_board b" and to: "is_within_board (row (move_to m)) (col (move_to m))"
  shows "applyMove_js b m = Inr (applyMove b m)"
proof (cases "Board.at b (move_from m)")
  case None
  then show ?thesis by (simp add: applyMove_js_def applyMove_def)
next
  case (Some pc)
  let ?b1 = "put b (move_to m) (Some pc)"
  have c1: "cell b (row (move_to m)) (col (move_to m))" using wf to by (simp add: cell_wf_board)
  have wf1: "wf_board ?b1" using wf by simp
  have c2: "cell ?b1 (row (move_from m)) (col (move_from m))"
    using Some by (auto simp: get_sq_def split: if_splits)
  have wf2: "wf_board (put ?b1 (move_from m) None)" using wf1 by simp
  have "\<exists>r. applyMove_js b m = Inr r"
    using Some by (simp add: applyMove_js_def js_write_cell [OF c1] js_write_cell [OF c2]
                             clear_captured_js_wf [OF wf2] split: option.split)
  then show ?thesis using applyMove_js_Inr by blast
qed

lemma applyMove_js_row_off:
  assumes "Board.at b (move_from m) = Some pc" "row (move_to m) < 0 \<or> length b \<le> nat (row (move_to m))"
  shows "applyMove_js b m = Inl TypeError"
  using assms by (auto simp: applyMove_js_def js_write_def)

lemma performMove_js_ok:
  "applyMove_js (board s) mv = Inr r \<Longrightarrow> performMove_js s mv = performMove s mv"
  by (auto simp: performMove_js_def performMove_def dest!: applyMove_js_Inr)

section \<open>The catch is never reached by a legal move\<close>

text \<open>
  C32 (the error path of a move). In every reachable screen state, every legal move of
  the side to move is applied without an exception, with the result of \<open>applyMove\<close>,
  and \<open>performMove\<close>'s \<open>catch\<close> is not reached; a move from a piece to a row off the
  board throws a \<open>TypeError\<close> in \<open>applyMove\<close>, which \<open>performMove\<close> catches, leaving
  the state unchanged.
\<close>

theorem performMove_error_path:
  assumes "reachable s"
  shows "(\<forall>m\<in>set (getAllPlayerMoves (board s) (currentPlayer s)).
            applyMove_js (board s) m = Inr (applyMove (board s) m) \<and> performMove_js s m = performMove s m)
         \<and> (\<forall>m pc. Board.at (board s) (move_from m) = Some pc \<and> (row (move_to m) < 0 \<or> 8 \<le> row (move_to m))
              \<longrightarrow> applyMove_js (board s) m = Inl TypeError \<and> performMove_js s m = s)"
proof -
  have wf: "wf_board (board s)" using reachable_game_inv_aux [OF assms] by (rule game_inv_board_wf)
  have ok: "applyMove_js (board s) m = Inr (applyMove (board s) m) \<and> performMove_js s m = performMove s m"
    if "m \<in> set (getAllPlayerMoves (board s) (currentPlayer s))" for m
  proof -
    have "is_within_board (row (move_to m)) (col (move_to m))"
      using legal_move_pieces [OF that] by blast
    then show ?thesis using applyMove_js_in_board [OF wf] performMove_js_ok by blast
  qed
  have err: "applyMove_js (board s) m = Inl TypeError \<and> performMove_js s m = s"
    if "Board.at (board s) (move_from m) = Some pc" "row (move_to m) < 0 \<or> 8 \<le> row (move_to m)" for m pc
  proof -
    have "length (board s) = 8" using wf by (simp add: wf_board_def)
    with that have "applyMove_js (board s) m = Inl TypeError"
      by (intro applyMove_js_row_off [of _ _ pc]) auto
    then show ?thesis by (simp add: performMove_js_def)
  qed
  show ?thesis using ok err by blast
qed

theorem performMove_error_path_witness:
  "reachable (initialGameState Two None Map.empty)
   \<and> performMove_js (initialGameState Two None Map.empty)
       \<lparr>move_from = \<lparr>row = 5, col = 0\<rparr>, move_to = \<lparr>row = 8, col = 1\<rparr>, captured = []\<rparr>
     = initialGameState Two None Map.empty"
proof -
  have r: "reachable (initialGameState Two None Map.empty)" by (rule reachable.start)
  have pc: "Board.at (board (initialGameState Two None Map.empty)) \<lparr>row = 5, col = 0\<rparr>
            = Some \<lparr>player = WHITE, ptype = MAN\<rparr>"
    by (simp add: initialGameState_def) code_simp
  show ?thesis
    using performMove_error_path [OF r] r pc by fastforce
qed

end
