(* ===== verification/ScreenRuns.thy ===== *)
theory ScreenRuns
  imports GameScreen
begin

text \<open>
  Two properties of the game screen's handlers (\<open>src/src/screens/GameScreen.tsx\<close>) over
  the events of \<open>game_step\<close>: what the pause flag freezes, and what the undo button does
  in single-player mode, where one press takes back the player's move and the computer's
  reply together.
\<close>

section \<open>Lemmas\<close>

lemma performMove_history: "history (performMove s m) = history s @ [newBoard (applyMove (board s) m)]"
  by (simp add: performMove_def Let_def)

section \<open>Pause\<close>

text \<open>
  C22 (pause freezes the game). While the game is paused, every event other than undo
  and restart leaves the board, the history, the side to move and the winner as they are,
  and the game stays paused unless the event is the pause button itself. Clicks, the turn
  effect and the AI timer all return on \<open>isPaused\<close>; undo and restart do not look at it
  (the undo button stays enabled while paused).
\<close>

theorem pause_freezes_game:
  assumes paused: "isPaused s" and "e \<noteq> Undo" "e \<noteq> Restart"
  shows "board (game_step s e) = board s \<and> history (game_step s e) = history s
         \<and> currentPlayer (game_step s e) = currentPlayer s \<and> gameWinner (game_step s e) = gameWinner s
         \<and> isPaused (game_step s e) = (e \<noteq> TogglePause)"
  using assms
  by (cases e) (simp_all add: handleSquareClick_def game_effect_def ai_timer_def ai_due_def
                              modal_timeout_def persist_prefs_def)

theorem pause_freezes_game_witness:
  "isPaused ((initialGameState Two None Map.empty)\<lparr>isPaused := True\<rparr>)
   \<and> board (game_step ((initialGameState Two None Map.empty)\<lparr>isPaused := True\<rparr>) (SquareClick 5 0))
       = createInitialBoard
   \<and> isPaused (game_step ((initialGameState Two None Map.empty)\<lparr>isPaused := True\<rparr>) (SquareClick 5 0))"
proof -
  let ?s = "(initialGameState Two None Map.empty)\<lparr>isPaused := True\<rparr>"
  have p: "isPaused ?s" by simp
  have b: "board ?s = createInitialBoard" by (simp add: initialGameState_def)
  show ?thesis using pause_freezes_game [OF p, of "SquareClick 5 0"] p b by simp
qed

section \<open>Single-player undo\<close>

text \<open>
  C31 (single-player undo takes back a full turn). In single-player mode, from a settled
  position with the player (White) to move, after the player's move and the computer's
  reply, one press of undo restores exactly the state before the player's move: both
  boards leave the history and it is the player's turn again.
\<close>

theorem single_player_undo:
  assumes "gameMode s = Single" "gameWinner s = None" "history s \<noteq> []" "last (history s) = board s"
    "currentPlayer s = PLAYER_ONE" "selectedPiece s = None" "validMoves s = []"
    "mandatoryCaptures s = []"
  shows "handleUndo (performMove (performMove s m1) m2) = s"
proof -
  let ?t = "performMove (performMove s m1) m2"
  have h: "history ?t = history s @ [newBoard (applyMove (board s) m1),
                                     newBoard (applyMove (board (performMove s m1)) m2)]"
    by (simp add: performMove_history)
  have w: "gameWinner ?t = None" "gameMode ?t = Single"
    using assms(1,2) by (simp_all add: performMove_def Let_def)
  have "take (length (history ?t) - 2) (history ?t) = history s" by (simp add: h)
  moreover have "2 < length (history ?t)" using assms(3) by (simp add: h)
  ultimately show ?thesis
    using assms w by (simp add: handleUndo_def Let_def performMove_def)
qed

theorem single_player_undo_witness:
  "gameMode (initialGameState Single (Some Hard) Map.empty) = Single
   \<and> handleUndo (performMove (performMove (initialGameState Single (Some Hard) Map.empty)
         \<lparr>move_from = \<lparr>row = 5, col = 0\<rparr>, move_to = \<lparr>row = 4, col = 1\<rparr>, captured = []\<rparr>)
         \<lparr>move_from = \<lparr>row = 2, col = 1\<rparr>, move_to = \<lparr>row = 3, col = 2\<rparr>, captured = []\<rparr>)
       = initialGameState Single (Some Hard) Map.empty"
  using single_player_undo [of "initialGameState Single (Some Hard) Map.empty"
      "\<lparr>move_from = \<lparr>row = 5, col = 0\<rparr>, move_to = \<lparr>row = 4, col = 1\<rparr>, captured = []\<rparr>"
      "\<lparr>move_from = \<lparr>row = 2, col = 1\<rparr>, move_to = \<lparr>row = 3, col = 2\<rparr>, captured = []\<rparr>"]
  by (simp add: initialGameState_def)

end
