(* ===== verification/Spec2Isabelle.thy ===== *)
theory Spec2Isabelle
  imports AppView CaptureReturns MoveErrors ScreenRuns
begin

text \<open>
  \<^bold>\<open>A verification library for the Ethiopian checkers (dama) game.\<close>

  The program is a React/TypeScript application. Its rules engine
  (\<open>src/src/game/logic.ts\<close>, with the types of \<open>src/src/types/index.ts\<close> and the constants
  and initial board of \<open>src/src/constants/index.ts\<close>) generates legal moves under
  mandatory, longest-chain capture, applies moves with promotion, detects the end of the
  game, evaluates boards and searches for the AI's move with alpha-beta minimax. The
  screen \<open>src/src/screens/GameScreen.tsx\<close> holds the game state, turns clicks and timers
  into calls of the engine and keeps an undo history. The remaining components draw
  the board, the controls, the menu and the game-over dialog.

  \<^bold>\<open>Theories and what they model.\<close>
  \<^item> \<open>Prelude\<close>: shared facts on lists (updates, running-maximum loops, sums) and the
    fail-soft relation \<open>fishburn\<close> with its one-iteration lemmas.
  \<^item> \<open>Board\<close>: the types (\<open>player\<close>, \<open>piece\<close>, \<open>position\<close>, \<open>move\<close>, \<open>game_result\<close>, ...)
    as datatypes and records, the board as \<open>square list list\<close> indexed by \<open>int\<close>, with
    \<open>get_sq\<close> modelling the optional-chaining read \<open>board[r]?.[c]\<close> (\<open>None\<close> off the
    arrays) and \<open>set_sq\<close> the array write; \<open>createInitialBoard\<close> with its placement
    loops; \<open>count_sq\<close> for the source's nested \<open>forEach\<close> counts.
  \<^item> \<open>MoveGen\<close>: \<open>findPieceCaptureMovesRecursive\<close> and its direction loop as two mutually
    recursive functions, \<open>findPieceCaptureMoves\<close>, \<open>findCaptureMoves\<close>, \<open>getValidMoves\<close>,
    \<open>findStandardMoves\<close>, \<open>getAllPlayerMoves\<close>. The recursion terminates because each
    level removes an enemy piece (measure: enemy count, then the direction list).
  \<^item> \<open>CaptureReturns\<close>: the same recursion read as code that may not return
    (\<^theory_text>\<open>partial_function (option)\<close>, \<open>captureLoop_opt\<close>), shown to return on every
    input with the value of the total model.
  \<^item> \<open>ApplyMove\<close>: \<open>applyMove\<close> with the captured-square loop and promotion.
  \<^item> \<open>MoveErrors\<close>: the same writes as JavaScript performs them, with the \<open>TypeError\<close> of
    a write to a missing row as an error value (\<open>js_write\<close>, \<open>applyMove_js\<close>), and
    \<open>performMove\<close> with its \<open>try/catch\<close> (\<open>performMove_js\<close>).
  \<^item> \<open>WinCheck\<close>: \<open>checkWinCondition\<close> and its opponent piece count.
  \<^item> \<open>Material\<close>: where a legal move lands, and the piece counts before and after
    \<open>applyMove\<close>, counted as sets of occupied squares.
  \<^item> \<open>Evaluate\<close>: \<open>evaluateBoard\<close> computed exactly in \<open>rat\<close> (the centre distance uses
    halves) with an integer refinement.
  \<^item> \<open>Search\<close>: scores with \<open>-Infinity\<close>/\<open>+Infinity\<close> (\<open>score\<close>, a linear order),
    \<open>minimax\<close> with its two pruning loops as mutual recursion, the reference
    \<open>minimax_value\<close>, \<open>getEasyMove\<close>, \<open>getMediumMove\<close>, \<open>getHardMove\<close>, \<open>getAIMove\<close>;
    \<open>Math.random()\<close> is an argument in \<open>[0, 1)\<close>.
  \<^item> \<open>Suggest\<close>: \<open>getSuggestedMoves\<close>, the stable descending sort as \<open>sort_key\<close>.
  \<^item> \<open>GameScreen\<close>: the screen's state hooks as the record \<open>game_state\<close>, each handler
    (\<open>performMove\<close>, \<open>handleSquareClick\<close>, \<open>handleRestart\<close>, \<open>handleUndo\<close>, the toggles,
    the preference effects) and the turn effect as functions on it; the AI timer and the
    game-over timer as events; runs as event sequences (\<open>game_step\<close>) and the reachable
    states as an inductive predicate; what \<open>GameOverModal\<close> shows (\<open>gameOverModal\<close>).
  \<^item> \<open>App\<close>: \<open>App.tsx\<close> and \<open>MainMenu.tsx\<close> as the record \<open>app_state\<close> with the
    menu's buttons (\<open>menu_step\<close>), mode selection mounting a fresh screen state
    (\<open>handleSelectMode\<close>), \<open>handleBackToMenu\<close>, and \<open>app_step\<close> forwarding every
    other event to the mounted screen; reachable application states as an inductive
    predicate, so the screen's properties are lifted to what the application can reach.
  \<^item> \<open>View\<close>: \<open>GameBoard.tsx\<close> as data: each square's flags (selection, path and
    suggestion markers, coordinate labels, piece) from the props the screen passes.
  \<^item> \<open>Placement\<close>: two further invariants of the screen's reachable states: every board
    of the history has its pieces on the dark squares (moves are diagonal steps and
    chains of diagonal jumps), and the selected square holds a piece of the side to move,
    with every highlighted move starting there and no highlighted move without a
    selection.
  \<^item> \<open>ScreenRuns\<close>: what the pause flag freezes across all events, and the
    single-player undo, which takes back the player's move and the computer's reply.
  \<^item> \<open>Screen\<close>: the rendered screen as data: \<open>GamePiece.tsx\<close> (\<open>gamePiece\<close>),
    \<open>GameControls.tsx\<close> (\<open>gameControls\<close>, over any callback type), the buttons of
    \<open>GameOverModal.tsx\<close> (\<open>modalButtons\<close>), and \<open>GameScreen.tsx\<close>'s header, turn banner,
    counters and composition (\<open>screenView\<close>) with the callbacks as \<open>app_event\<close>s; a
    button fires its handler unless it is disabled (\<open>press\<close>).
  \<^item> \<open>AppView\<close>: the menu's buttons (\<open>mainMenuButtons\<close>) and \<open>App.tsx\<close>'s switch between
    menu and game screen (\<open>appView\<close>); \<open>menu_step\<close>'s guards are exactly the drawn
    buttons (\<open>menu_buttons_exact\<close>), and pressing any drawn button keeps the application
    reachable (\<open>press_app_reachable\<close>), so the properties of reachable states hold of
    every state a user reaches through the interface.
  \<^item> this theory: scenarios that run several components together.

  \<^bold>\<open>What is proved.\<close> The move generator: mandatory capture of maximal length (C1),
  longest chains per piece (C2), soundness of every legal move (C3), the chain-length
  bound behind termination (C4), \<open>getValidMoves\<close> as a filter of the legal moves (C5),
  quiet moves as single steps (C6). The applicator: its effect on every square (C7),
  promotion (C8). The selection: the selected square holds a piece of the side to move
  and every highlighted move starts there (C9). The terminal evaluator: soundness (C10),
  elimination (C11). Where a legal move lands: on an empty square outside the captured
  ones, with the (possibly crowned) mover standing there afterwards, except for a chain
  that returns to its start (C13).
  The evaluator: antisymmetry (C14) and its integral bound below the win scores (C15).
  The search: alpha-beta satisfies Fishburn's fail-soft condition against plain minimax
  for every window (C16), the hard AI plays the first move of maximal exact minimax value
  (C17), the AI only and always plays legal moves (C18), medium equals easy (C19).
  The menu: an event changes the menu exactly when a drawn button raises it (C20).
  Suggestions: the sort-and-filter equals a filter by maximal score (C21). Pause: while
  paused only undo and restart change the game, and only the pause button unpauses
  (C22). The controller: its invariant on every reachable state (C23), every
  board added to the history comes from a legal move (C24), undo reverts a move (C25),
  the two-player undo gives the turn to the wrong side (C26), the game-over flag
  outlives a restart (C27), score bounds (C29), single-player undo restores the state
  before the player's move and the computer's reply (C31), preferences survive a remount (C30), the
  undo button is disabled exactly when undo is a no-op (C34). The application: the AI
  always answers when its timer is due (C28), every mounted screen state satisfies the
  controller invariant (C35), a new game after the menu starts afresh with the previous
  preferences (C36). The board view: path markers show exactly the legal
  destinations (C37), no marker is shown when the human cannot move (C38), and the board
  drawn in every reachable state is 8\<times>8 with every piece on a dark square and the raised
  piece belonging to the side to move (C40). The screen's buttons: once the game is
  over, no button but Reset, PLAY AGAIN and the menu buttons changes the game (C12). The
  capture search returns on every input, read as code that may not (C39). The error
  path: a legal move never throws, so \<open>applyMove\<close> and \<open>performMove\<close> are what the
  source computes, and a move to a row off the board throws and is caught with no
  change (C32). Material accounting: a legal move removes exactly the
  captured enemy pieces, and the mover's own piece too when the move ends on its start
  square (C33); a chain never ends on a square it captured. The scenarios below run the
  generator, the applicator and the terminal check together.

  \<^bold>\<open>Bounds and termination.\<close> No fuel is used. The capture search terminates by the
  enemy-count measure (and, read as a \<^theory_text>\<open>partial_function (option)\<close>, returns: C39), \<open>minimax\<close> by the depth (every recursive call lowers it, every
  loop iteration shortens the move list), the suggestion sort and the other loops are
  structural recursion. The search depths are the source's constants 4 and 6.

  \<^bold>\<open>Not modelled.\<close> Drawing: CSS classes, colours and sizes of every component (the
  data they show and the handlers of their buttons are modelled), the window-size listener
  and confetti drawing of \<open>GameOverModal.tsx\<close>, the decorative elements of
  \<open>MainMenu.tsx\<close>, page transitions, sounds (\<open>howler\<close>), animations
  (\<open>framer-motion\<close>) and the timers' delays (only their order matters here). React's scheduling of the turn effect is over-approximated: the
  effect may run between any two events. \<open>applyMove\<close> and \<open>performMove\<close> of the
  controller are the total versions: by C32 they agree with the JavaScript writes and
  the \<open>catch\<close> on every move the screen performs.
\<close>

section \<open>Scenarios across components\<close>

text \<open>
  Scenario (opening moves). On the initial board White (the side starting near row 7) has
  seven legal moves, all single steps from row 5 into row 4 that capture nothing, and
  Black symmetrically seven. The specification's scenario states exactly four.
\<close>

theorem opening_moves:
  "length (getAllPlayerMoves createInitialBoard PLAYER_ONE) = 7
   \<and> map (\<lambda>m. (row (move_from m), row (move_to m), captured m)) (getAllPlayerMoves createInitialBoard PLAYER_ONE)
     = replicate 7 (5, 4, [])
   \<and> length (getAllPlayerMoves createInitialBoard PLAYER_TWO) = 7"
  by code_simp

text \<open>
  Scenario (simple capture and double jump). With one capturable black man White's only legal
  move is that capture; with two black men capturable in sequence White's only legal
  move is the double jump, not the stop after the first capture, and applying it
  removes both captured men.
\<close>

theorem capture_scenarios:
  "getAllPlayerMoves single_capture_board WHITE
     = [\<lparr>move_from = \<lparr>row = 5, col = 2\<rparr>, move_to = \<lparr>row = 3, col = 4\<rparr>,
         captured = [\<lparr>row = 4, col = 3\<rparr>]\<rparr>]
   \<and> getAllPlayerMoves double_jump_board WHITE
     = [\<lparr>move_from = \<lparr>row = 6, col = 1\<rparr>, move_to = \<lparr>row = 2, col = 5\<rparr>,
         captured = [\<lparr>row = 5, col = 2\<rparr>, \<lparr>row = 3, col = 4\<rparr>]\<rparr>]
   \<and> count_pieces (newBoard (applyMove double_jump_board
       \<lparr>move_from = \<lparr>row = 6, col = 1\<rparr>, move_to = \<lparr>row = 2, col = 5\<rparr>,
        captured = [\<lparr>row = 5, col = 2\<rparr>, \<lparr>row = 3, col = 4\<rparr>]\<rparr>)) BLACK = 1"
  by (simp add: single_capture_board_def double_jump_board_def board_of_def) code_simp

text \<open>
  Scenario (a king's capture cycle removes the king). A white king on (4, 3) with black men on
  (3, 2), (1, 2), (1, 4) and (3, 4) can capture all four and land on its starting square.
  The generator returns this cycle as legal moves with \<open>from = to\<close>, and \<open>applyMove\<close>
  writes the king to the destination and then clears the origin, which is the same
  square: the board after the move has no piece of either side.
\<close>

theorem cyclic_capture_removes_king:
  "map (\<lambda>m. (move_from m, move_to m, length (captured m))) (getAllPlayerMoves cyclic_capture_board WHITE)
     = replicate 2 (\<lparr>row = 4, col = 3\<rparr>, \<lparr>row = 4, col = 3\<rparr>, 4)
   \<and> count_pieces (newBoard (applyMove cyclic_capture_board
       (hd (getAllPlayerMoves cyclic_capture_board WHITE)))) WHITE = 0
   \<and> count_pieces (newBoard (applyMove cyclic_capture_board
       (hd (getAllPlayerMoves cyclic_capture_board WHITE)))) BLACK = 0"
  by (simp add: cyclic_capture_board_def board_of_def) code_simp

end
